theory Spec2Isabelle
  imports Complex_Main "HOL-Library.AList"
begin

section \<open>The feed merger of debug_parse.py\<close>

text \<open>
  The script debug_parse.py replays the dashboard's parseThingSpeakMerge: two feeds of
  timestamped readings (temperature channel, humidity channel) are merged into one
  record per minute, with a value and a validity flag per sensor.

  The model follows the script line by line. What the script takes from Python's
  library (\<open>float\<close>, \<open>datetime.fromisoformat\<close>, \<open>datetime.timestamp\<close>, \<open>round\<close>, the order
  of datetimes) is floating point and calendar arithmetic; it is passed in as a record of
  functions, so that every theorem below holds for whatever these functions compute.
\<close>

subsection \<open>Data\<close>

datatype py_error = ValueError | IndexError | KeyError | TypeError

text \<open>
  A RawReading is a dict of the JSON feed. \<open>f.get('created_at')\<close> and
  \<open>f.get('field{s}')\<close> are strings or None; a key that is absent and a key that is null
  both read as None here (the script treats them alike: a reading without a usable
  \<open>created_at\<close> is skipped either way, and \<open>f.get('field{s}')\<close> is None for both).
\<close>

record raw_reading =
  created_at :: "string option"
  field :: "nat \<Rightarrow> string option"

text \<open>
  Python's library, as used by the script. \<open>'ts\<close> is the type of datetimes,
  \<open>'f\<close> the type of floats; \<open>0\<close> of \<open>'f\<close> stands for the floats that
  compare equal to \<open>0\<close>.
  \<^item> \<open>py_float s\<close> is \<open>float(s)\<close> on a string; \<open>Inl ValueError\<close> when it raises;
  \<^item> \<open>fromisoformat s\<close> is \<open>datetime.fromisoformat(s)\<close>, \<open>Inl ValueError\<close> when it raises;
  \<^item> \<open>epoch_minute ts\<close> is \<open>round(ts.timestamp() / 60)\<close>;
  \<^item> \<open>aware ts\<close> says that \<open>ts\<close> carries an offset (\<open>fromisoformat\<close> of a string
    with \<open>+00:00\<close> or another offset); a string without one, as
    \<open>2026-02-25T10:00:00\<close>, also parses, to a naive datetime;
  \<^item> \<open>instant ts\<close> is the number by which Python orders \<open>ts\<close> among datetimes of its
    own kind: the point in time (microseconds since the epoch) of an aware datetime,
    the wall-clock reading of a naive one. Python refuses to order a naive and an aware
    datetime (TypeError).

  \<open>ts.timestamp()\<close> is taken as total: it never raises on an aware datetime, and on a
  naive one only at the ends of the calendar.
\<close>

record ('ts, 'f) pylib =
  py_float :: "string \<Rightarrow> py_error + 'f"
  fromisoformat :: "string \<Rightarrow> py_error + 'ts"
  epoch_minute :: "'ts \<Rightarrow> int"
  aware :: "'ts \<Rightarrow> bool"
  instant :: "'ts \<Rightarrow> int"

text \<open>
  A MergedRecord is the dict \<open>e\<close> of the script: \<open>e['timestamp']\<close>, and the keys
  \<open>t{s}\<close>, \<open>rh{s}\<close>, \<open>ok{s}\<close>. For each family of keys the record holds a map from the
  sensor number: \<open>t_s e s = None\<close> says that the key \<open>t{s}\<close> is not in \<open>e\<close>,
  \<open>t_s e s = Some None\<close> that it is there with the value None, and
  \<open>t_s e s = Some (Some v)\<close> that it holds the float \<open>v\<close>.
\<close>

record ('ts, 'f) entry =
  timestamp :: 'ts
  t_s :: "nat \<rightharpoonup> 'f option"
  rh_s :: "nat \<rightharpoonup> 'f option"
  ok_s :: "nat \<rightharpoonup> nat"

text \<open>
  \<open>entries\<close> is a dict from the minute key to the record. Python dicts keep the order
  in which keys were first inserted, and \<open>entries.values()\<close> is read in that order, so
  the dict is an association list; \<open>entries[key] = v\<close> is \<open>AList.update key v\<close>, which
  replaces in place or appends.
\<close>

type_synonym ('ts, 'f) entries = "(int \<times> ('ts, 'f) entry) list"

subsection \<open>Helpers of the script\<close>

text \<open>\<open>xs[i]\<close> for a non-negative index.\<close>

definition py_index :: "'a list \<Rightarrow> nat \<Rightarrow> py_error + 'a" where
  "py_index xs i = (if i < length xs then Inr (xs ! i) else Inl IndexError)"

text \<open>\<open>s.split(',')\<close>: always at least one part.\<close>

fun split_comma :: "string \<Rightarrow> string list" where
  "split_comma [] = [[]]"
| "split_comma (c # cs) =
     (if c = CHR '','' then [] # split_comma cs
      else (case split_comma cs of [] \<Rightarrow> [[c]] | p # ps \<Rightarrow> (c # p) # ps))"

text \<open>\<open>ts_str.replace('Z', '+00:00')\<close>.\<close>

definition replace_Z :: "string \<Rightarrow> string" where
  "replace_Z s = concat (map (\<lambda>c. if c = CHR ''Z'' then ''+00:00'' else [c]) s)"

text \<open>\<open>range(a, b)\<close>.\<close>

definition py_range :: "nat \<Rightarrow> nat \<Rightarrow> nat list" where
  "py_range a b = [a..<b]"

text \<open>A \<open>for\<close> loop whose body may raise: the first error ends the loop.\<close>

fun for_each :: "('a \<Rightarrow> 'b \<Rightarrow> py_error + 'b) \<Rightarrow> 'a list \<Rightarrow> 'b \<Rightarrow> py_error + 'b" where
  "for_each body [] st = Inr st"
| "for_each body (x # xs) st =
     (case body x st of Inl err \<Rightarrow> Inl err | Inr st' \<Rightarrow> for_each body xs st')"

text \<open>
  \<open>num_parse\<close> (lines 23-30). The bare \<open>except\<close> turns every error of \<open>float\<close> into None.
\<close>

definition num_parse :: "('ts, 'f) pylib \<Rightarrow> string option \<Rightarrow> 'f option" where
  "num_parse L v =
     (case v of
        None \<Rightarrow> None
      | Some s \<Rightarrow>
          if s = '''' \<or> s = ''null'' \<or> s = ''None'' then None
          else (case py_float L s of Inl err \<Rightarrow> None | Inr n \<Rightarrow> Some n))"

text \<open>\<open>round_min\<close> (lines 32-33).\<close>

definition round_min :: "('ts, 'f) pylib \<Rightarrow> 'ts \<Rightarrow> int" where
  "round_min L ts = epoch_minute L ts"

text \<open>
  Lines 40-44 and 73-77: \<open>f.get('created_at', '')\<close>, then \<open>fromisoformat\<close> inside
  \<open>try\<close>. None is the \<open>except: continue\<close> branch; a \<open>created_at\<close> that is not a
  string raises in \<open>.replace\<close> and takes the same branch.
\<close>

definition parse_created_at :: "('ts, 'f) pylib \<Rightarrow> raw_reading \<Rightarrow> 'ts option" where
  "parse_created_at L f =
     (case created_at f of
        None \<Rightarrow> None
      | Some ts_str \<Rightarrow>
          (case fromisoformat L (replace_Z ts_str) of Inl err \<Rightarrow> None | Inr ts \<Rightarrow> Some ts))"

subsection \<open>Temperature feed (lines 38-69)\<close>

text \<open>
  \<open>num_parse(parts[s-1]) if (s-1 < len(parts)) else None\<close> (lines 57 and 58).
\<close>

definition csv_value :: "('ts, 'f) pylib \<Rightarrow> string list \<Rightarrow> nat \<Rightarrow> py_error + 'f option" where
  "csv_value L parts s =
     (if s - 1 < length parts
      then (case py_index parts (s - 1) of
              Inl err \<Rightarrow> Inl err
            | Inr p \<Rightarrow> Inr (num_parse L (Some p)))
      else Inr None)"

text \<open>The body of the loop at lines 56-62.\<close>

definition csv_sensor ::
  "('ts, 'f) pylib \<Rightarrow> string list \<Rightarrow> string list \<Rightarrow> nat \<Rightarrow> ('ts, 'f) entry
     \<Rightarrow> py_error + ('ts, 'f) entry" where
  "csv_sensor L tParts rhParts s e =
     (case csv_value L tParts s of
        Inl err \<Rightarrow> Inl err
      | Inr tv \<Rightarrow>
          (case csv_value L rhParts s of
             Inl err \<Rightarrow> Inl err
           | Inr hv \<Rightarrow>
               (let e1 = e\<lparr>t_s := (t_s e)(s \<mapsto> tv)\<rparr>;
                    e2 = e1\<lparr>rh_s := (rh_s e1)(s \<mapsto> hv)\<rparr>
                in if ok_s e2 s = None
                   then Inr (e2\<lparr>ok_s := (ok_s e2)(s \<mapsto> (if tv \<noteq> None \<or> hv \<noteq> None then 1 else 0))\<rparr>)
                   else Inr e2)))"

text \<open>The body of the loop at lines 65-69.\<close>

definition legacy_sensor ::
  "('ts, 'f::zero) pylib \<Rightarrow> raw_reading \<Rightarrow> nat \<Rightarrow> ('ts, 'f) entry \<Rightarrow> py_error + ('ts, 'f) entry" where
  "legacy_sensor L f s e =
     (let val = num_parse L (field f s);
          e1 = e\<lparr>t_s := (t_s e)(s \<mapsto> val)\<rparr>
      in if ok_s e1 s = None
         then Inr (e1\<lparr>ok_s := (ok_s e1)(s \<mapsto> (if val \<noteq> None \<and> val \<noteq> Some 0 then 1 else 0))\<rparr>)
         else Inr e1)"

text \<open>
  Line 52: \<open>field2 and isinstance(field2, str) and ',' in field2\<close>.
\<close>

definition is_csv :: "string option \<Rightarrow> bool" where
  "is_csv field2 = (case field2 of None \<Rightarrow> False | Some s \<Rightarrow> s \<noteq> [] \<and> CHR '','' \<in> set s)"

text \<open>\<open>f.get('field3') or ''\<close>.\<close>

definition or_empty :: "string option \<Rightarrow> string" where
  "or_empty v = (case v of None \<Rightarrow> [] | Some s \<Rightarrow> s)"

text \<open>Lines 50-69: what one temperature reading does to its record \<open>e\<close>.\<close>

definition temp_fields ::
  "('ts, 'f::zero) pylib \<Rightarrow> nat \<Rightarrow> raw_reading \<Rightarrow> ('ts, 'f) entry \<Rightarrow> py_error + ('ts, 'f) entry" where
  "temp_fields L SC f e =
     (let field2 = field f 2
      in if is_csv field2
         then (let tParts = split_comma (or_empty field2);
                   rhParts = split_comma (or_empty (field f 3))
               in for_each (csv_sensor L tParts rhParts) (py_range 1 (SC + 1)) e)
         else for_each (legacy_sensor L f) (py_range 1 (min SC 8 + 1)) e)"

text \<open>
  Lines 45-48 and 78-81: the key, \<open>if key not in entries: entries[key] = {'timestamp': ts}\<close>,
  and \<open>e = entries[key]\<close>. The loop bodies then change \<open>e\<close> in place, which is
  \<open>entries[key] = e'\<close> on the association list.
\<close>

definition new_entry :: "'ts \<Rightarrow> ('ts, 'f) entry" where
  "new_entry ts = \<lparr>timestamp = ts, t_s = Map.empty, rh_s = Map.empty, ok_s = Map.empty\<rparr>"

definition touch :: "int \<Rightarrow> 'ts \<Rightarrow> ('ts, 'f) entries \<Rightarrow> ('ts, 'f) entries" where
  "touch key ts entries =
     (if map_of entries key = None then AList.update key (new_entry ts) entries else entries)"

definition with_entry ::
  "int \<Rightarrow> (('ts, 'f) entry \<Rightarrow> py_error + ('ts, 'f) entry) \<Rightarrow> ('ts, 'f) entries
     \<Rightarrow> py_error + ('ts, 'f) entries" where
  "with_entry key body entries =
     (case map_of entries key of
        None \<Rightarrow> Inl KeyError
      | Some e \<Rightarrow>
          (case body e of
             Inl err \<Rightarrow> Inl err
           | Inr e' \<Rightarrow> Inr (AList.update key e' entries)))"

text \<open>The body of the loop over \<open>tempFeeds\<close> (lines 39-69).\<close>

definition temp_reading ::
  "('ts, 'f::zero) pylib \<Rightarrow> nat \<Rightarrow> raw_reading \<Rightarrow> ('ts, 'f) entries \<Rightarrow> py_error + ('ts, 'f) entries" where
  "temp_reading L SC f entries =
     (case parse_created_at L f of
        None \<Rightarrow> Inr entries
      | Some ts \<Rightarrow>
          (let key = round_min L ts
           in with_entry key (temp_fields L SC f) (touch key ts entries)))"

subsection \<open>Humidity feed (lines 71-86)\<close>

text \<open>The body of the loop at lines 82-86.\<close>

definition hum_sensor ::
  "('ts, 'f::zero) pylib \<Rightarrow> raw_reading \<Rightarrow> nat \<Rightarrow> ('ts, 'f) entry \<Rightarrow> py_error + ('ts, 'f) entry" where
  "hum_sensor L f s e =
     (let val = num_parse L (field f s);
          e1 = e\<lparr>rh_s := (rh_s e)(s \<mapsto> val)\<rparr>
      in if val \<noteq> None \<and> val \<noteq> Some 0
         then Inr (e1\<lparr>ok_s := (ok_s e1)(s \<mapsto> 1)\<rparr>)
         else Inr e1)"

definition hum_fields ::
  "('ts, 'f::zero) pylib \<Rightarrow> nat \<Rightarrow> raw_reading \<Rightarrow> ('ts, 'f) entry \<Rightarrow> py_error + ('ts, 'f) entry" where
  "hum_fields L SC f e = for_each (hum_sensor L f) (py_range 1 (min SC 8 + 1)) e"

definition hum_reading ::
  "('ts, 'f::zero) pylib \<Rightarrow> nat \<Rightarrow> raw_reading \<Rightarrow> ('ts, 'f) entries \<Rightarrow> py_error + ('ts, 'f) entries" where
  "hum_reading L SC f entries =
     (case parse_created_at L f of
        None \<Rightarrow> Inr entries
      | Some ts \<Rightarrow>
          (let key = round_min L ts
           in with_entry key (hum_fields L SC f) (touch key ts entries)))"

subsection \<open>Fill and sort (lines 88-97)\<close>

definition fill_sensor :: "nat \<Rightarrow> ('ts, 'f) entry \<Rightarrow> ('ts, 'f) entry" where
  "fill_sensor s e =
     (let e1 = (if t_s e s = None then e\<lparr>t_s := (t_s e)(s \<mapsto> None)\<rparr> else e);
          e2 = (if rh_s e1 s = None then e1\<lparr>rh_s := (rh_s e1)(s \<mapsto> None)\<rparr> else e1)
      in if ok_s e2 s = None then e2\<lparr>ok_s := (ok_s e2)(s \<mapsto> 0)\<rparr> else e2)"

definition fill_entry :: "nat \<Rightarrow> ('ts, 'f) entry \<Rightarrow> ('ts, 'f) entry" where
  "fill_entry SC e = fold fill_sensor (py_range 1 (SC + 1)) e"

definition fill_all :: "nat \<Rightarrow> ('ts, 'f) entries \<Rightarrow> ('ts, 'f) entry list" where
  "fill_all SC entries = map (fill_entry SC) (map snd entries)"

text \<open>
  Line 97, \<open>all_entries.sort(key=lambda e: e['timestamp'])\<close>. The sort is stable and
  compares the timestamps with \<open><\<close>. When the list holds a naive and an aware
  timestamp, the sort raises TypeError: it cannot place the two kinds relative to each
  other without comparing one of each. When all timestamps are of one kind (as in a list
  of no or one record), no comparison raises and the result is the stable sort by
  \<open>instant\<close>.
\<close>

definition sort_entries ::
  "('ts, 'f) pylib \<Rightarrow> ('ts, 'f) entry list \<Rightarrow> py_error + ('ts, 'f) entry list" where
  "sort_entries L all_entries =
     (if list_all (\<lambda>e. aware L (timestamp e)) all_entries
         \<or> list_all (\<lambda>e. \<not> aware L (timestamp e)) all_entries
      then Inr (sort_key (\<lambda>e. instant L (timestamp e)) all_entries)
      else Inl TypeError)"

subsection \<open>The merge (lines 36-97)\<close>

text \<open>The state of \<open>entries\<close> after both loops.\<close>

definition ingest ::
  "('ts, 'f::zero) pylib \<Rightarrow> nat \<Rightarrow> raw_reading list \<Rightarrow> raw_reading list
     \<Rightarrow> py_error + ('ts, 'f) entries" where
  "ingest L SC tempFeeds humFeeds =
     (case for_each (temp_reading L SC) tempFeeds [] of
        Inl err \<Rightarrow> Inl err
      | Inr entries \<Rightarrow> for_each (hum_reading L SC) humFeeds entries)"

definition parseThingSpeakMerge ::
  "('ts, 'f::zero) pylib \<Rightarrow> nat \<Rightarrow> raw_reading list \<Rightarrow> raw_reading list
     \<Rightarrow> py_error + ('ts, 'f) entry list" where
  "parseThingSpeakMerge L SC tempFeeds humFeeds =
     (case ingest L SC tempFeeds humFeeds of
        Inl err \<Rightarrow> Inl err
      | Inr entries \<Rightarrow> sort_entries L (fill_all SC entries))"

text \<open>
  Lines 16-18: the constant, and \<open>data.get('tempFeeds', [])\<close>, \<open>data.get('humFeeds', [])\<close>
  on the snapshot; None is a missing key.
\<close>

definition SENSOR_COUNT :: nat where
  "SENSOR_COUNT = 5"

record snapshot =
  tempFeeds :: "raw_reading list option"
  humFeeds :: "raw_reading list option"

definition get_feed :: "raw_reading list option \<Rightarrow> raw_reading list" where
  "get_feed v = (case v of None \<Rightarrow> [] | Some feeds \<Rightarrow> feeds)"

definition merge_snapshot ::
  "('ts, 'f::zero) pylib \<Rightarrow> snapshot \<Rightarrow> py_error + ('ts, 'f) entry list" where
  "merge_snapshot L data =
     parseThingSpeakMerge L SENSOR_COUNT (get_feed (tempFeeds data)) (get_feed (humFeeds data))"

subsection \<open>Reading the state\<close>

text \<open>
  \<open>entries[key]['t{s}']\<close> and its siblings, for stating what a reading did: None when
  the record or the key is not there.
\<close>

definition t_at :: "('ts, 'f) entries \<Rightarrow> int \<Rightarrow> nat \<Rightarrow> 'f option option" where
  "t_at entries key s = (case map_of entries key of None \<Rightarrow> None | Some e \<Rightarrow> t_s e s)"

definition rh_at :: "('ts, 'f) entries \<Rightarrow> int \<Rightarrow> nat \<Rightarrow> 'f option option" where
  "rh_at entries key s = (case map_of entries key of None \<Rightarrow> None | Some e \<Rightarrow> rh_s e s)"

definition ok_at :: "('ts, 'f) entries \<Rightarrow> int \<Rightarrow> nat \<Rightarrow> nat option" where
  "ok_at entries key s = (case map_of entries key of None \<Rightarrow> None | Some e \<Rightarrow> ok_s e s)"

text \<open>
  The record a reading works on: \<open>entries[key]\<close> after line 47 (or 80), which is the
  record already there or a fresh one.
\<close>

definition current :: "('ts, 'f) entries \<Rightarrow> int \<Rightarrow> 'ts \<Rightarrow> ('ts, 'f) entry" where
  "current entries key ts = (case map_of entries key of None \<Rightarrow> new_entry ts | Some e \<Rightarrow> e)"

text \<open>A record with no key outside the sensors \<open>1..SC\<close>.\<close>

definition keys_upto :: "nat \<Rightarrow> ('ts, 'f) entry \<Rightarrow> bool" where
  "keys_upto SC e \<longleftrightarrow> (\<forall>s. s \<notin> {1..SC} \<longrightarrow> t_s e s = None \<and> rh_s e s = None \<and> ok_s e s = None)"

text \<open>The value of \<open>csv_value\<close>, which never raises.\<close>

definition csv_val :: "('ts, 'f) pylib \<Rightarrow> string list \<Rightarrow> nat \<Rightarrow> 'f option" where
  "csv_val L parts s = (if s - 1 < length parts then num_parse L (Some (parts ! (s - 1))) else None)"

text \<open>
  A record as a row of the output: its timestamp and \<open>(t{s}, rh{s}, ok{s})\<close> for
  \<open>s = 1..SC\<close>; and the rows of a result.
\<close>

definition row ::
  "nat \<Rightarrow> ('ts, 'f) entry \<Rightarrow> 'ts \<times> ('f option option \<times> 'f option option \<times> nat option) list" where
  "row SC e = (timestamp e, map (\<lambda>s. (t_s e s, rh_s e s, ok_s e s)) [1..<SC + 1])"

definition rows ::
  "nat \<Rightarrow> py_error + ('ts, 'f) entry list
     \<Rightarrow> py_error + ('ts \<times> ('f option option \<times> 'f option option \<times> nat option) list) list" where
  "rows SC res = (case res of Inl err \<Rightarrow> Inl err | Inr out \<Rightarrow> Inr (map (row SC) out))"

text \<open>Every reading of the feed whose \<open>created_at\<close> parses carries an offset.\<close>

definition all_aware :: "('ts, 'f) pylib \<Rightarrow> raw_reading list \<Rightarrow> bool" where
  "all_aware L feed =
     list_all (\<lambda>f. case parse_created_at L f of None \<Rightarrow> True | Some ts \<Rightarrow> aware L ts) feed"

text \<open>The minute keys of the readings of a feed that pass the timestamp parse, in feed order.\<close>

definition feed_keys :: "('ts, 'f) pylib \<Rightarrow> raw_reading list \<Rightarrow> int list" where
  "feed_keys L feed = map (round_min L) (List.map_filter (parse_created_at L) feed)"

text \<open>\<open>if key not in entries: entries[key] = ...\<close> on the list of keys.\<close>

definition add_key :: "int \<Rightarrow> int list \<Rightarrow> int list" where
  "add_key k ks = (if k \<in> set ks then ks else ks @ [k])"

text \<open>A list of keys with every repetition after the first dropped.\<close>

definition first_seen :: "int list \<Rightarrow> int list" where
  "first_seen ks = rev (remdups (rev ks))"

subsection \<open>A concrete library for the examples\<close>

text \<open>A reading written as in the JSON feed: \<open>created_at\<close> and the fields that are present.\<close>

definition reading :: "string \<Rightarrow> (nat \<times> string) list \<Rightarrow> raw_reading" where
  "reading ts_str fs = \<lparr>created_at = Some ts_str, field = map_of fs\<rparr>"

text \<open>
  For closed examples the library is instantiated with a fragment of Python's: floats
  are plain decimal literals (\<open>-12.5\<close>, \<open>40\<close>, \<open>.5\<close>) read as the real number they
  denote, and timestamps are the strings \<open>YYYY-MM-DDTHH:MM:SS+00:00\<close>, read as whole
  seconds since 1970-01-01T00:00:00+00:00; all of them are aware. Every other string raises ValueError here.
  On the strings it accepts, the fragment returns what Python returns, provided the
  decimal is a value of the float type (as 21.5, 22.0, 40, 41 and 0 are); the examples
  use no string that Python accepts and the fragment rejects.
\<close>

definition digit_of :: "char \<Rightarrow> nat option" where
  "digit_of c = (if c \<in> set ''0123456789'' then Some (of_char c - 48) else None)"

fun digits_val :: "string \<Rightarrow> nat \<Rightarrow> nat option" where
  "digits_val [] acc = Some acc"
| "digits_val (c # cs) acc =
     (case digit_of c of None \<Rightarrow> None | Some d \<Rightarrow> digits_val cs (10 * acc + d))"

definition dec_float :: "string \<Rightarrow> py_error + real" where
  "dec_float s =
     (let neg = (case s of [] \<Rightarrow> False | c # cs \<Rightarrow> c = CHR ''-'');
          body = (if neg then tl s else s);
          ip = takeWhile (\<lambda>c. c \<noteq> CHR ''.'') body;
          fp = drop 1 (dropWhile (\<lambda>c. c \<noteq> CHR ''.'') body)
      in if ip = [] \<and> fp = [] then Inl ValueError
         else (case digits_val ip 0 of
                 None \<Rightarrow> Inl ValueError
               | Some i \<Rightarrow>
                   (case digits_val fp 0 of
                      None \<Rightarrow> Inl ValueError
                    | Some fr \<Rightarrow>
                        (let v = real i + real fr / 10 ^ length fp
                         in Inr (if neg then - v else v)))))"

text \<open>Days from 1970-01-01 to a date of the proleptic Gregorian calendar.\<close>

definition days_from_civil :: "int \<Rightarrow> int \<Rightarrow> int \<Rightarrow> int" where
  "days_from_civil y m d =
     (let y1 = (if m \<le> 2 then y - 1 else y);
          era = y1 div 400;
          yoe = y1 - era * 400;
          doy = (153 * (if m > 2 then m - 3 else m + 9) + 2) div 5 + d - 1;
          doe = yoe * 365 + yoe div 4 - yoe div 100 + doy
      in era * 146097 + doe - 719468)"

definition days_in_month :: "int \<Rightarrow> int \<Rightarrow> int" where
  "days_in_month y m =
     (if m = 2 then (if y mod 4 = 0 \<and> (y mod 100 \<noteq> 0 \<or> y mod 400 = 0) then 29 else 28)
      else if m = 4 \<or> m = 6 \<or> m = 9 \<or> m = 11 then 30 else 31)"

definition utc_seconds :: "string \<Rightarrow> py_error + int" where
  "utc_seconds s =
     (if length s = 25 \<and> s ! 4 = CHR ''-'' \<and> s ! 7 = CHR ''-'' \<and> s ! 10 = CHR ''T''
         \<and> s ! 13 = CHR '':'' \<and> s ! 16 = CHR '':'' \<and> drop 19 s = ''+00:00''
      then (case (digits_val (take 4 s) 0, digits_val (take 2 (drop 5 s)) 0,
                  digits_val (take 2 (drop 8 s)) 0, digits_val (take 2 (drop 11 s)) 0,
                  digits_val (take 2 (drop 14 s)) 0, digits_val (take 2 (drop 17 s)) 0) of
              (Some y, Some m, Some d, Some hh, Some mm, Some ss) \<Rightarrow>
                if 1 \<le> y \<and> 1 \<le> m \<and> m \<le> 12 \<and> 1 \<le> d \<and> int d \<le> days_in_month (int y) (int m)
                   \<and> hh < 24 \<and> mm < 60 \<and> ss < 60
                then Inr (days_from_civil (int y) (int m) (int d) * 86400
                          + int hh * 3600 + int mm * 60 + int ss)
                else Inl ValueError
            | _ \<Rightarrow> Inl ValueError)
      else Inl ValueError)"

text \<open>
  \<open>round(x / 60)\<close> for a whole number of seconds \<open>x\<close>: Python rounds a half to the
  even neighbour.
\<close>

definition round_minutes :: "int \<Rightarrow> int" where
  "round_minutes x =
     (let q = x div 60; r = x mod 60
      in if r < 30 then q else if r > 30 then q + 1 else if even q then q else q + 1)"

definition demo_lib :: "(int, real) pylib" where
  "demo_lib = \<lparr>py_float = dec_float, fromisoformat = utc_seconds,
                epoch_minute = round_minutes, aware = (\<lambda>x. True),
                instant = (\<lambda>x. x * 1000000)\<rparr>"

text \<open>
  The same library with the strings \<open>YYYY-MM-DDTHH:MM:SS\<close> as well: Python reads a
  string without an offset as a naive datetime. A datetime is a pair of its kind (True:
  aware) and its seconds; the epoch minute of a naive datetime is taken with UTC as
  the local zone.
\<close>

definition iso_datetime :: "string \<Rightarrow> py_error + bool \<times> int" where
  "iso_datetime s =
     (if length s = 19
      then (case utc_seconds (s @ ''+00:00'') of Inl err \<Rightarrow> Inl err | Inr x \<Rightarrow> Inr (False, x))
      else (case utc_seconds s of Inl err \<Rightarrow> Inl err | Inr x \<Rightarrow> Inr (True, x)))"

definition zone_lib :: "(bool \<times> int, real) pylib" where
  "zone_lib = \<lparr>py_float = dec_float, fromisoformat = iso_datetime,
                 epoch_minute = (\<lambda>ts. round_minutes (snd ts)), aware = fst,
                 instant = (\<lambda>ts. snd ts * 1000000)\<rparr>"

text \<open>
  The readings of the examples. All carry the timestamp of the spec's end-to-end example,
  1772013600 seconds after the epoch, whose minute key is 29533560.
  \<^item> \<open>ex_csv\<close>: \<open>{created_at: "2026-02-25T10:00:00Z", field2: "21.5,22.0", field3: "40,41"}\<close>;
  \<^item> \<open>ex_null_csv\<close>: \<open>{created_at: ..., field2: "null,null"}\<close>, packed CSV without a value;
  \<^item> \<open>ex_rh_csv\<close>: \<open>{created_at: ..., field2: "null,null", field3: "40,41"}\<close>;
  \<^item> \<open>ex_legacy_zero\<close>: \<open>{created_at: ..., field1: "0"}\<close>;
  \<^item> \<open>ex_hum\<close>: \<open>{created_at: ..., field1: "40", field2: "0"}\<close>, as a humidity reading;
  \<^item> \<open>ex_hum_gap\<close>: \<open>{created_at: ..., field2: "55"}\<close>, a humidity reading without \<open>field1\<close>;
  \<^item> \<open>ex_hum_null\<close>: \<open>{created_at: ..., field1: "null", field2: "55"}\<close>, a humidity reading;
  \<^item> \<open>ex_bad\<close>: \<open>{created_at: "yesterday", field1: "21.5"}\<close>, whose timestamp does not
    parse;
  \<^item> \<open>ex_later\<close>: \<open>{created_at: "2026-02-25T10:07:00Z", field1: "19.5"}\<close>;
  \<^item> \<open>ex_naive\<close>: \<open>{created_at: "2026-02-25T10:00:00", field1: "21.5"}\<close>, whose timestamp
    has no offset.
\<close>

definition ex_csv :: raw_reading where
  "ex_csv = reading ''2026-02-25T10:00:00Z'' [(2, ''21.5,22.0''), (3, ''40,41'')]"

definition ex_null_csv :: raw_reading where
  "ex_null_csv = reading ''2026-02-25T10:00:00Z'' [(2, ''null,null'')]"

definition ex_rh_csv :: raw_reading where
  "ex_rh_csv = reading ''2026-02-25T10:00:00Z'' [(2, ''null,null''), (3, ''40,41'')]"

definition ex_legacy_zero :: raw_reading where
  "ex_legacy_zero = reading ''2026-02-25T10:00:00Z'' [(1, ''0'')]"

definition ex_hum :: raw_reading where
  "ex_hum = reading ''2026-02-25T10:00:00Z'' [(1, ''40''), (2, ''0'')]"

definition ex_hum_gap :: raw_reading where
  "ex_hum_gap = reading ''2026-02-25T10:00:00Z'' [(2, ''55'')]"

definition ex_hum_null :: raw_reading where
  "ex_hum_null = reading ''2026-02-25T10:00:00Z'' [(1, ''null''), (2, ''55'')]"

definition ex_bad :: raw_reading where
  "ex_bad = reading ''yesterday'' [(1, ''21.5'')]"

definition ex_later :: raw_reading where
  "ex_later = reading ''2026-02-25T10:07:00Z'' [(1, ''19.5'')]"

definition ex_naive :: raw_reading where
  "ex_naive = reading ''2026-02-25T10:00:00'' [(1, ''21.5'')]"

text \<open>
  A state of \<open>entries\<close> in which the record of minute 29533560 has \<open>ok1 = 0\<close> (as
  after \<open>ex_null_csv\<close> or \<open>ex_legacy_zero\<close>).
\<close>

definition ex_flag0 :: "(int, real) entries" where
  "ex_flag0 = [(29533560, \<lparr>timestamp = 1772013600, t_s = [1 \<mapsto> None], rh_s = Map.empty,
                            ok_s = [1 \<mapsto> 0]\<rparr>)]"

section \<open>Properties\<close>

subsection \<open>The loops over the sensors, in closed form\<close>

lemma for_each_append:
  "for_each body (xs @ ys) st =
     (case for_each body xs st of Inl err \<Rightarrow> Inl err | Inr st' \<Rightarrow> for_each body ys st')"
  by (induction xs arbitrary: st) (auto split: sum.splits)

lemma for_each_snoc_Inr:
  "for_each body xs st = Inr st' \<Longrightarrow> for_each body (xs @ [x]) st = body x st'"
  by (simp add: for_each_append split: sum.splits)

lemma csv_value_Inr: "csv_value L parts s = Inr (csv_val L parts s)"
  by (simp add: csv_value_def csv_val_def py_index_def)

lemma csv_sensor_Inr:
  "csv_sensor L tP rP s e =
     Inr (e\<lparr>t_s := (t_s e)(s \<mapsto> csv_val L tP s), rh_s := (rh_s e)(s \<mapsto> csv_val L rP s),
            ok_s := (if ok_s e s = None
                     then (ok_s e)(s \<mapsto> (if csv_val L tP s \<noteq> None \<or> csv_val L rP s \<noteq> None then 1 else 0))
                     else ok_s e)\<rparr>)"
  by (simp add: csv_sensor_def csv_value_Inr Let_def)

lemma csv_loop:
  "for_each (csv_sensor L tP rP) xs e =
     Inr (e\<lparr>t_s := (\<lambda>s. if s \<in> set xs then Some (csv_val L tP s) else t_s e s),
            rh_s := (\<lambda>s. if s \<in> set xs then Some (csv_val L rP s) else rh_s e s),
            ok_s := (\<lambda>s. if s \<in> set xs \<and> ok_s e s = None
                          then Some (if csv_val L tP s \<noteq> None \<or> csv_val L rP s \<noteq> None then 1 else 0)
                          else ok_s e s)\<rparr>)"
proof (induction xs rule: rev_induct)
  case Nil
  show ?case by simp
next
  case (snoc x xs)
  show ?case
    apply (subst for_each_snoc_Inr [OF snoc.IH])
    apply (subst csv_sensor_Inr)
    apply (simp only: sum.inject)
    apply (rule entry.equality)
    apply (auto simp: fun_eq_iff)
    done
qed

lemma legacy_sensor_Inr:
  "legacy_sensor L f s e =
     Inr (e\<lparr>t_s := (t_s e)(s \<mapsto> num_parse L (field f s)),
            ok_s := (if ok_s e s = None
                     then (ok_s e)(s \<mapsto> (if num_parse L (field f s) \<noteq> None \<and> num_parse L (field f s) \<noteq> Some 0 then 1 else 0))
                     else ok_s e)\<rparr>)"
  by (simp add: legacy_sensor_def Let_def)

lemma legacy_loop:
  "for_each (legacy_sensor L f) xs e =
     Inr (e\<lparr>t_s := (\<lambda>s. if s \<in> set xs then Some (num_parse L (field f s)) else t_s e s),
            ok_s := (\<lambda>s. if s \<in> set xs \<and> ok_s e s = None
                          then Some (if num_parse L (field f s) \<noteq> None \<and> num_parse L (field f s) \<noteq> Some 0 then 1 else 0)
                          else ok_s e s)\<rparr>)"
proof (induction xs rule: rev_induct)
  case Nil
  show ?case by simp
next
  case (snoc x xs)
  show ?case
    apply (subst for_each_snoc_Inr [OF snoc.IH])
    apply (subst legacy_sensor_Inr)
    apply (simp only: sum.inject)
    apply (rule entry.equality)
    apply (auto simp: fun_eq_iff)
    done
qed

lemma hum_sensor_Inr:
  "hum_sensor L f s e =
     Inr (e\<lparr>rh_s := (rh_s e)(s \<mapsto> num_parse L (field f s)),
            ok_s := (if num_parse L (field f s) \<noteq> None \<and> num_parse L (field f s) \<noteq> Some 0
                     then (ok_s e)(s \<mapsto> 1) else ok_s e)\<rparr>)"
  by (simp add: hum_sensor_def Let_def)

lemma hum_loop:
  "for_each (hum_sensor L f) xs e =
     Inr (e\<lparr>rh_s := (\<lambda>s. if s \<in> set xs then Some (num_parse L (field f s)) else rh_s e s),
            ok_s := (\<lambda>s. if s \<in> set xs \<and> num_parse L (field f s) \<noteq> None
                              \<and> num_parse L (field f s) \<noteq> Some 0
                          then Some 1 else ok_s e s)\<rparr>)"
proof (induction xs rule: rev_induct)
  case Nil
  show ?case by simp
next
  case (snoc x xs)
  show ?case
    apply (subst for_each_snoc_Inr [OF snoc.IH])
    apply (subst hum_sensor_Inr)
    apply (simp only: sum.inject)
    apply (rule entry.equality)
    apply (auto simp: fun_eq_iff)
    done
qed

lemma fill_sensor_eq:
  "fill_sensor s e =
     e\<lparr>t_s := (if t_s e s = None then (t_s e)(s \<mapsto> None) else t_s e),
       rh_s := (if rh_s e s = None then (rh_s e)(s \<mapsto> None) else rh_s e),
       ok_s := (if ok_s e s = None then (ok_s e)(s \<mapsto> 0) else ok_s e)\<rparr>"
  by (simp add: fill_sensor_def Let_def)

lemma fill_loop:
  "fold fill_sensor xs e =
     e\<lparr>t_s := (\<lambda>s. if s \<in> set xs \<and> t_s e s = None then Some None else t_s e s),
       rh_s := (\<lambda>s. if s \<in> set xs \<and> rh_s e s = None then Some None else rh_s e s),
       ok_s := (\<lambda>s. if s \<in> set xs \<and> ok_s e s = None then Some 0 else ok_s e s)\<rparr>"
proof (induction xs rule: rev_induct)
  case Nil
  show ?case by simp
next
  case (snoc x xs)
  have step: "fold fill_sensor (xs @ [x]) e = fill_sensor x (fold fill_sensor xs e)"
    by simp
  show ?case
    apply (subst step)
    apply (subst snoc.IH)
    apply (subst fill_sensor_eq)
    apply (rule entry.equality)
    apply (auto simp: fun_eq_iff)
    done
qed

subsection \<open>One reading\<close>

lemma set_py_range: "s \<in> set (py_range (Suc 0) (Suc n)) \<longleftrightarrow> Suc 0 \<le> s \<and> s \<le> n"
  by (auto simp: py_range_def)

lemma map_of_touch: "map_of (touch key ts es) key = Some (current es key ts)"
  by (auto simp: touch_def current_def update_conv')

lemma keys_touch:
  "map fst (touch key ts es) = (if key \<in> set (map fst es) then map fst es else map fst es @ [key])"
  by (auto simp: touch_def update_keys map_of_eq_None_iff)

lemma with_entry_touch:
  "body (current es key ts) = Inr e' \<Longrightarrow>
   with_entry key body (touch key ts es) = Inr (AList.update key e' (touch key ts es))"
  by (simp add: with_entry_def map_of_touch)

lemma keys_update_touch:
  "map fst (AList.update key e' (touch key ts es)) =
     (if key \<in> set (map fst es) then map fst es else map fst es @ [key])"
  by (auto simp: update_keys keys_touch)

lemma t_s_current: "t_s (current es key ts) s = t_at es key s"
  by (simp add: current_def t_at_def new_entry_def split: option.splits)

lemma rh_s_current: "rh_s (current es key ts) s = rh_at es key s"
  by (simp add: current_def rh_at_def new_entry_def split: option.splits)

lemma ok_s_current: "ok_s (current es key ts) s = ok_at es key s"
  by (simp add: current_def ok_at_def new_entry_def split: option.splits)

lemma t_at_update: "t_at (AList.update key e' es) key s = t_s e' s"
  by (simp add: t_at_def update_conv')

lemma rh_at_update: "rh_at (AList.update key e' es) key s = rh_s e' s"
  by (simp add: rh_at_def update_conv')

lemma ok_at_update: "ok_at (AList.update key e' es) key s = ok_s e' s"
  by (simp add: ok_at_def update_conv')

lemma temp_fields_csv:
  "is_csv (field f 2) \<Longrightarrow>
   temp_fields L SC f e =
     Inr (e\<lparr>t_s := (\<lambda>s. if s \<in> {1..SC} then Some (csv_val L (split_comma (or_empty (field f 2))) s) else t_s e s),
            rh_s := (\<lambda>s. if s \<in> {1..SC} then Some (csv_val L (split_comma (or_empty (field f 3))) s) else rh_s e s),
            ok_s := (\<lambda>s. if s \<in> {1..SC} \<and> ok_s e s = None
                          then Some (if csv_val L (split_comma (or_empty (field f 2))) s \<noteq> None
                                        \<or> csv_val L (split_comma (or_empty (field f 3))) s \<noteq> None then 1 else 0)
                          else ok_s e s)\<rparr>)"
  by (simp add: temp_fields_def Let_def csv_loop set_py_range)

lemma temp_fields_legacy:
  "\<not> is_csv (field f 2) \<Longrightarrow>
   temp_fields L SC f e =
     Inr (e\<lparr>t_s := (\<lambda>s. if s \<in> {1..min SC 8} then Some (num_parse L (field f s)) else t_s e s),
            ok_s := (\<lambda>s. if s \<in> {1..min SC 8} \<and> ok_s e s = None
                          then Some (if num_parse L (field f s) \<noteq> None \<and> num_parse L (field f s) \<noteq> Some 0 then 1 else 0)
                          else ok_s e s)\<rparr>)"
  by (simp add: temp_fields_def Let_def legacy_loop set_py_range)

lemma hum_fields_eq:
  "hum_fields L SC f e =
     Inr (e\<lparr>rh_s := (\<lambda>s. if s \<in> {1..min SC 8} then Some (num_parse L (field f s)) else rh_s e s),
            ok_s := (\<lambda>s. if s \<in> {1..min SC 8} \<and> num_parse L (field f s) \<noteq> None
                              \<and> num_parse L (field f s) \<noteq> Some 0
                          then Some 1 else ok_s e s)\<rparr>)"
  by (simp add: hum_fields_def hum_loop set_py_range)

lemma temp_fields_Inr: "\<exists>e'. temp_fields L SC f e = Inr e'"
  by (cases "is_csv (field f 2)") (simp_all add: temp_fields_csv temp_fields_legacy)

lemma temp_reading_skip: "parse_created_at L f = None \<Longrightarrow> temp_reading L SC f es = Inr es"
  by (simp add: temp_reading_def)

lemma hum_reading_skip: "parse_created_at L f = None \<Longrightarrow> hum_reading L SC f es = Inr es"
  by (simp add: hum_reading_def)

lemma temp_reading_eq:
  "parse_created_at L f = Some ts \<Longrightarrow>
   temp_fields L SC f (current es (round_min L ts) ts) = Inr e' \<Longrightarrow>
   temp_reading L SC f es = Inr (AList.update (round_min L ts) e' (touch (round_min L ts) ts es))"
  by (simp add: temp_reading_def Let_def with_entry_touch)

lemma hum_reading_eq:
  "parse_created_at L f = Some ts \<Longrightarrow>
   hum_fields L SC f (current es (round_min L ts) ts) = Inr e' \<Longrightarrow>
   hum_reading L SC f es = Inr (AList.update (round_min L ts) e' (touch (round_min L ts) ts es))"
  by (simp add: hum_reading_def Let_def with_entry_touch)

lemma temp_reading_Inr: "\<exists>es'. temp_reading L SC f es = Inr es'"
proof (cases "parse_created_at L f")
  case None
  then show ?thesis by (simp add: temp_reading_skip)
next
  case (Some ts)
  obtain e' where "temp_fields L SC f (current es (round_min L ts) ts) = Inr e'"
    using temp_fields_Inr by blast
  with Some show ?thesis by (simp add: temp_reading_eq)
qed

lemma hum_reading_Inr: "\<exists>es'. hum_reading L SC f es = Inr es'"
proof (cases "parse_created_at L f")
  case None
  then show ?thesis by (simp add: hum_reading_skip)
next
  case (Some ts)
  then show ?thesis by (simp add: hum_reading_eq [OF Some hum_fields_eq])
qed

lemma for_each_total:
  "(\<And>x st. \<exists>st'. body x st = Inr st') \<Longrightarrow> \<exists>st'. for_each body xs st = Inr st'"
proof (induction xs arbitrary: st)
  case Nil
  show ?case by simp
next
  case (Cons x xs)
  obtain st1 where "body x st = Inr st1" using Cons.prems by blast
  moreover obtain st2 where "for_each body xs st1 = Inr st2" using Cons.IH Cons.prems by blast
  ultimately show ?case by simp
qed

lemma ingest_Inr: "\<exists>es. ingest L SC tf hf = Inr es"
proof -
  obtain es1 where a: "for_each (temp_reading L SC) tf [] = Inr es1"
    using for_each_total [of "temp_reading L SC"] temp_reading_Inr by blast
  obtain es2 where "for_each (hum_reading L SC) hf es1 = Inr es2"
    using for_each_total [of "hum_reading L SC"] hum_reading_Inr by blast
  with a show ?thesis by (simp add: ingest_def)
qed

lemma merge_eq: "ingest L SC tf hf = Inr es \<Longrightarrow>
  parseThingSpeakMerge L SC tf hf = sort_entries L (fill_all SC es)"
  by (simp add: parseThingSpeakMerge_def)

lemma temp_reading_csv:
  assumes p: "parse_created_at L f = Some ts" and c: "is_csv (field f 2)"
  shows "\<exists>es'. temp_reading L SC f es = Inr es' \<and>
     (\<forall>s. t_at es' (round_min L ts) s =
            (if s \<in> {1..SC} then Some (csv_val L (split_comma (or_empty (field f 2))) s)
             else t_at es (round_min L ts) s)) \<and>
     (\<forall>s. rh_at es' (round_min L ts) s =
            (if s \<in> {1..SC} then Some (csv_val L (split_comma (or_empty (field f 3))) s)
             else rh_at es (round_min L ts) s)) \<and>
     (\<forall>s. ok_at es' (round_min L ts) s =
            (if s \<in> {1..SC} \<and> ok_at es (round_min L ts) s = None
             then Some (if csv_val L (split_comma (or_empty (field f 2))) s \<noteq> None
                           \<or> csv_val L (split_comma (or_empty (field f 3))) s \<noteq> None then 1 else 0)
             else ok_at es (round_min L ts) s))"
  by (simp add: temp_reading_eq [OF p temp_fields_csv [OF c]]
        t_at_update rh_at_update ok_at_update t_s_current rh_s_current ok_s_current)

lemma temp_reading_legacy:
  assumes p: "parse_created_at L f = Some ts" and c: "\<not> is_csv (field f 2)"
  shows "\<exists>es'. temp_reading L SC f es = Inr es' \<and>
     (\<forall>s. t_at es' (round_min L ts) s =
            (if s \<in> {1..min SC 8} then Some (num_parse L (field f s))
             else t_at es (round_min L ts) s)) \<and>
     (\<forall>s. rh_at es' (round_min L ts) s = rh_at es (round_min L ts) s) \<and>
     (\<forall>s. ok_at es' (round_min L ts) s =
            (if s \<in> {1..min SC 8} \<and> ok_at es (round_min L ts) s = None
             then Some (if num_parse L (field f s) \<noteq> None \<and> num_parse L (field f s) \<noteq> Some 0 then 1 else 0)
             else ok_at es (round_min L ts) s))"
  by (simp add: temp_reading_eq [OF p temp_fields_legacy [OF c]]
        t_at_update rh_at_update ok_at_update t_s_current rh_s_current ok_s_current)

lemma hum_reading_obs:
  assumes p: "parse_created_at L f = Some ts"
  shows "\<exists>es'. hum_reading L SC f es = Inr es' \<and>
     (\<forall>s. t_at es' (round_min L ts) s = t_at es (round_min L ts) s) \<and>
     (\<forall>s. rh_at es' (round_min L ts) s =
            (if s \<in> {1..min SC 8} then Some (num_parse L (field f s))
             else rh_at es (round_min L ts) s)) \<and>
     (\<forall>s. ok_at es' (round_min L ts) s =
            (if s \<in> {1..min SC 8} \<and> num_parse L (field f s) \<noteq> None
                 \<and> num_parse L (field f s) \<noteq> Some 0
             then Some 1 else ok_at es (round_min L ts) s))"
  by (auto simp: hum_reading_eq [OF p hum_fields_eq]
        t_at_update rh_at_update ok_at_update t_s_current rh_s_current ok_s_current)

subsection \<open>Filling, and feeds of one reading\<close>

lemma timestamp_fill: "timestamp (fill_entry SC e) = timestamp e"
  by (simp add: fill_entry_def fill_loop)

lemma t_s_fill:
  "t_s (fill_entry SC e) s = (if s \<in> {1..SC} \<and> t_s e s = None then Some None else t_s e s)"
  by (simp add: fill_entry_def fill_loop set_py_range)

lemma rh_s_fill:
  "rh_s (fill_entry SC e) s = (if s \<in> {1..SC} \<and> rh_s e s = None then Some None else rh_s e s)"
  by (simp add: fill_entry_def fill_loop set_py_range)

lemma ok_s_fill:
  "ok_s (fill_entry SC e) s = (if s \<in> {1..SC} \<and> ok_s e s = None then Some 0 else ok_s e s)"
  by (simp add: fill_entry_def fill_loop set_py_range)

lemma temp_reading_empty:
  "parse_created_at L f = Some ts \<Longrightarrow> temp_fields L SC f (new_entry ts) = Inr e' \<Longrightarrow>
   temp_reading L SC f [] = Inr [(round_min L ts, e')]"
  by (simp add: temp_reading_def Let_def with_entry_def touch_def)

lemma hum_reading_same_key:
  "parse_created_at L f = Some ts \<Longrightarrow> round_min L ts = k \<Longrightarrow> hum_fields L SC f e = Inr e' \<Longrightarrow>
   hum_reading L SC f [(k, e)] = Inr [(k, e')]"
  by (simp add: hum_reading_def Let_def with_entry_def touch_def)

lemma merge_single:
  "ingest L SC tf hf = Inr [(k, e)] \<Longrightarrow> parseThingSpeakMerge L SC tf hf = Inr [fill_entry SC e]"
  by (simp add: parseThingSpeakMerge_def fill_all_def sort_entries_def)

subsection \<open>No key outside the sensors\<close>

lemma set_update_subset: "set (AList.update k v al) \<subseteq> insert (k, v) (set al)"
  by (induction al) auto

lemma set_touch_subset: "set (touch k ts es) \<subseteq> insert (k, new_entry ts) (set es)"
  using set_update_subset [of k "new_entry ts" es] by (auto simp: touch_def)

lemma current_cases: "current es k ts = new_entry ts \<or> (k, current es k ts) \<in> set es"
  by (auto simp: current_def split: option.splits dest: map_of_SomeD)

lemma keys_upto_new: "keys_upto SC (new_entry ts)"
  by (simp add: keys_upto_def new_entry_def)

lemma keys_upto_temp_fields:
  assumes "keys_upto SC e" and "temp_fields L SC f e = Inr e'"
  shows "keys_upto SC e'"
proof (cases "is_csv (field f 2)")
  case True
  with assms show ?thesis
    by (auto simp: temp_fields_csv keys_upto_def)
next
  case False
  with assms show ?thesis
    by (auto simp: temp_fields_legacy keys_upto_def)
qed

lemma keys_upto_hum_fields:
  assumes "keys_upto SC e" and "hum_fields L SC f e = Inr e'"
  shows "keys_upto SC e'"
  using assms by (auto simp: hum_fields_eq keys_upto_def)

lemma keys_upto_with_entry:
  assumes inv: "\<forall>p\<in>set es. keys_upto SC (snd p)"
    and body: "\<And>e e'. keys_upto SC e \<Longrightarrow> body e = Inr e' \<Longrightarrow> keys_upto SC e'"
    and run: "with_entry k body (touch k ts es) = Inr es'"
  shows "\<forall>p\<in>set es'. keys_upto SC (snd p)"
proof -
  have cur: "keys_upto SC (current es k ts)"
    using current_cases [of es k ts] inv keys_upto_new [of SC ts] by force
  from run obtain e' where b: "body (current es k ts) = Inr e'"
    and es': "es' = AList.update k e' (touch k ts es)"
    by (auto simp: with_entry_def map_of_touch split: sum.splits)
  have "keys_upto SC e'" using body [OF cur b] .
  moreover have "set es' \<subseteq> insert (k, e') (insert (k, new_entry ts) (set es))"
    unfolding es' using set_update_subset [of k e' "touch k ts es"] set_touch_subset [of k ts es]
    by blast
  ultimately show ?thesis
    using inv keys_upto_new [of SC ts] by auto
qed

lemma keys_upto_temp_reading:
  assumes "\<forall>p\<in>set es. keys_upto SC (snd p)" and "temp_reading L SC f es = Inr es'"
  shows "\<forall>p\<in>set es'. keys_upto SC (snd p)"
proof (cases "parse_created_at L f")
  case None
  with assms show ?thesis by (simp add: temp_reading_def)
next
  case (Some ts)
  with assms(2) have "with_entry (round_min L ts) (temp_fields L SC f) (touch (round_min L ts) ts es) = Inr es'"
    by (simp add: temp_reading_def Let_def)
  from keys_upto_with_entry [OF assms(1) _ this] show ?thesis
    using keys_upto_temp_fields by blast
qed

lemma keys_upto_hum_reading:
  assumes "\<forall>p\<in>set es. keys_upto SC (snd p)" and "hum_reading L SC f es = Inr es'"
  shows "\<forall>p\<in>set es'. keys_upto SC (snd p)"
proof (cases "parse_created_at L f")
  case None
  with assms show ?thesis by (simp add: hum_reading_def)
next
  case (Some ts)
  with assms(2) have "with_entry (round_min L ts) (hum_fields L SC f) (touch (round_min L ts) ts es) = Inr es'"
    by (simp add: hum_reading_def Let_def)
  from keys_upto_with_entry [OF assms(1) _ this] show ?thesis
    using keys_upto_hum_fields by blast
qed

lemma for_each_invariant:
  assumes "\<And>x st st'. P st \<Longrightarrow> body x st = Inr st' \<Longrightarrow> P st'"
    and "P st" and "for_each body xs st = Inr st'"
  shows "P st'"
  using assms(2,3)
proof (induction xs arbitrary: st)
  case Nil
  then show ?case by simp
next
  case (Cons x xs)
  from Cons.prems(2) obtain st1 where a: "body x st = Inr st1" and b: "for_each body xs st1 = Inr st'"
    by (auto split: sum.splits)
  from assms(1) [OF Cons.prems(1) a] have "P st1" .
  from Cons.IH [OF this b] show ?case .
qed

lemma keys_upto_ingest:
  assumes "ingest L SC tf hf = Inr es"
  shows "\<forall>p\<in>set es. keys_upto SC (snd p)"
proof -
  from assms obtain es1 where a: "for_each (temp_reading L SC) tf [] = Inr es1"
    and b: "for_each (hum_reading L SC) hf es1 = Inr es"
    by (auto simp: ingest_def split: sum.splits)
  have "\<forall>p\<in>set es1. keys_upto SC (snd p)"
    by (rule for_each_invariant [where P = "\<lambda>es. \<forall>p\<in>set es. keys_upto SC (snd p)", OF _ _ a])
       (use keys_upto_temp_reading in blast, simp)
  then show ?thesis
    by (rule for_each_invariant [where P = "\<lambda>es. \<forall>p\<in>set es. keys_upto SC (snd p)", OF _ _ b, rotated])
       (use keys_upto_hum_reading in blast)
qed

lemma dom_fill:
  assumes "keys_upto SC e"
  shows "dom (t_s (fill_entry SC e)) = {1..SC} \<and> dom (rh_s (fill_entry SC e)) = {1..SC}
     \<and> dom (ok_s (fill_entry SC e)) = {1..SC}"
proof -
  have "t_s (fill_entry SC e) s \<noteq> None \<longleftrightarrow> s \<in> {1..SC}" for s
    using assms by (auto simp: keys_upto_def t_s_fill)
  moreover have "rh_s (fill_entry SC e) s \<noteq> None \<longleftrightarrow> s \<in> {1..SC}" for s
    using assms by (auto simp: keys_upto_def rh_s_fill)
  moreover have "ok_s (fill_entry SC e) s \<noteq> None \<longleftrightarrow> s \<in> {1..SC}" for s
    using assms by (auto simp: keys_upto_def ok_s_fill)
  ultimately show ?thesis unfolding dom_def by blast
qed

subsection \<open>The sort, and timestamps with an offset\<close>

lemma sort_entries_Inr:
  "sort_entries L xs = Inr out \<Longrightarrow> out = sort_key (\<lambda>e. instant L (timestamp e)) xs"
  by (auto simp: sort_entries_def split: if_splits)

lemma sort_entries_aware:
  "list_all (\<lambda>e. aware L (timestamp e)) xs \<Longrightarrow>
   sort_entries L xs = Inr (sort_key (\<lambda>e. instant L (timestamp e)) xs)"
  by (simp add: sort_entries_def)

lemma sort_entries_mixed:
  "a \<in> set xs \<Longrightarrow> b \<in> set xs \<Longrightarrow> aware L (timestamp a) \<Longrightarrow> \<not> aware L (timestamp b) \<Longrightarrow>
   sort_entries L xs = Inl TypeError"
  by (auto simp: sort_entries_def list_all_iff)

lemma timestamp_temp_fields: "temp_fields L SC f e = Inr e' \<Longrightarrow> timestamp e' = timestamp e"
  by (cases "is_csv (field f 2)") (auto simp: temp_fields_csv temp_fields_legacy)

lemma timestamp_hum_fields: "hum_fields L SC f e = Inr e' \<Longrightarrow> timestamp e' = timestamp e"
  by (auto simp: hum_fields_eq)

lemma aware_with_entry:
  assumes inv: "\<forall>p\<in>set es. aware L (timestamp (snd p))"
    and new: "aware L ts"
    and body: "\<And>e e'. body e = Inr e' \<Longrightarrow> timestamp e' = timestamp e"
    and run: "with_entry k body (touch k ts es) = Inr es'"
  shows "\<forall>p\<in>set es'. aware L (timestamp (snd p))"
proof -
  have n: "aware L (timestamp (new_entry ts :: ('a, 'b) entry))"
    using new by (simp add: new_entry_def)
  have cur: "aware L (timestamp (current es k ts))"
    using current_cases [of es k ts] inv n by force
  from run obtain e' where b: "body (current es k ts) = Inr e'"
    and es': "es' = AList.update k e' (touch k ts es)"
    by (auto simp: with_entry_def map_of_touch split: sum.splits)
  have e': "aware L (timestamp e')" using body [OF b] cur by simp
  have "set es' \<subseteq> insert (k, e') (insert (k, new_entry ts) (set es))"
    unfolding es' using set_update_subset [of k e' "touch k ts es"] set_touch_subset [of k ts es]
    by blast
  then show ?thesis
    using inv n e' by auto
qed

lemma aware_temp_reading:
  assumes "\<forall>p\<in>set es. aware L (timestamp (snd p))"
    and "case parse_created_at L f of None \<Rightarrow> True | Some ts \<Rightarrow> aware L ts"
    and "temp_reading L SC f es = Inr es'"
  shows "\<forall>p\<in>set es'. aware L (timestamp (snd p))"
proof (cases "parse_created_at L f")
  case None
  with assms show ?thesis by (simp add: temp_reading_def)
next
  case (Some ts)
  with assms(3) have r: "with_entry (round_min L ts) (temp_fields L SC f) (touch (round_min L ts) ts es) = Inr es'"
    by (simp add: temp_reading_def Let_def)
  from Some assms(2) have a: "aware L ts" by simp
  show ?thesis
    by (rule aware_with_entry [OF assms(1) a _ r]) (rule timestamp_temp_fields)
qed

lemma aware_hum_reading:
  assumes "\<forall>p\<in>set es. aware L (timestamp (snd p))"
    and "case parse_created_at L f of None \<Rightarrow> True | Some ts \<Rightarrow> aware L ts"
    and "hum_reading L SC f es = Inr es'"
  shows "\<forall>p\<in>set es'. aware L (timestamp (snd p))"
proof (cases "parse_created_at L f")
  case None
  with assms show ?thesis by (simp add: hum_reading_def)
next
  case (Some ts)
  with assms(3) have r: "with_entry (round_min L ts) (hum_fields L SC f) (touch (round_min L ts) ts es) = Inr es'"
    by (simp add: hum_reading_def Let_def)
  from Some assms(2) have a: "aware L ts" by simp
  show ?thesis
    by (rule aware_with_entry [OF assms(1) a _ r]) (rule timestamp_hum_fields)
qed

lemma for_each_invariant_mem:
  assumes "\<And>x st st'. x \<in> set xs \<Longrightarrow> P st \<Longrightarrow> body x st = Inr st' \<Longrightarrow> P st'"
    and "P st" and "for_each body xs st = Inr st'"
  shows "P st'"
  using assms
proof (induction xs arbitrary: st)
  case Nil
  then show ?case by simp
next
  case (Cons x xs)
  from Cons.prems(3) obtain st1 where a: "body x st = Inr st1" and b: "for_each body xs st1 = Inr st'"
    by (auto split: sum.splits)
  have p1: "P st1" using Cons.prems(1) [of x st st1] Cons.prems(2) a by simp
  have step: "P s'" if "y \<in> set xs" "P s" "body y s = Inr s'" for y s s'
    using Cons.prems(1) [of y s s'] that by simp
  show ?case by (rule Cons.IH [OF step p1 b])
qed

lemma aware_ingest:
  assumes tf: "all_aware L tf" and hf: "all_aware L hf" and i: "ingest L SC tf hf = Inr es"
  shows "\<forall>p\<in>set es. aware L (timestamp (snd p))"
proof -
  from i obtain es1 where a: "for_each (temp_reading L SC) tf [] = Inr es1"
    and b: "for_each (hum_reading L SC) hf es1 = Inr es"
    by (auto simp: ingest_def split: sum.splits)
  have t: "case parse_created_at L f of None \<Rightarrow> True | Some ts \<Rightarrow> aware L ts" if "f \<in> set tf" for f
    using tf that by (simp add: all_aware_def list_all_iff)
  have h: "case parse_created_at L f of None \<Rightarrow> True | Some ts \<Rightarrow> aware L ts" if "f \<in> set hf" for f
    using hf that by (simp add: all_aware_def list_all_iff)
  have 1: "\<forall>p\<in>set es1. aware L (timestamp (snd p))"
  proof (rule for_each_invariant_mem [where P = "\<lambda>es. \<forall>p\<in>set es. aware L (timestamp (snd p))", OF _ _ a])
    show "\<forall>p\<in>set ([] :: ('a, 'b) entries). aware L (timestamp (snd p))" by simp
  next
    fix x st st'
    assume "x \<in> set tf" and "\<forall>p\<in>set st. aware L (timestamp (snd p))" and "temp_reading L SC x st = Inr st'"
    then show "\<forall>p\<in>set st'. aware L (timestamp (snd p))"
      using aware_temp_reading t by blast
  qed
  show ?thesis
  proof (rule for_each_invariant_mem [where P = "\<lambda>es. \<forall>p\<in>set es. aware L (timestamp (snd p))", OF _ 1 b])
    fix x st st'
    assume "x \<in> set hf" and "\<forall>p\<in>set st. aware L (timestamp (snd p))" and "hum_reading L SC x st = Inr st'"
    then show "\<forall>p\<in>set st'. aware L (timestamp (snd p))"
      using aware_hum_reading h by blast
  qed
qed

lemma merge_aware:
  assumes "all_aware L tf" and "all_aware L hf"
  shows "\<exists>out. parseThingSpeakMerge L SC tf hf = Inr out"
proof -
  obtain es where i: "ingest L SC tf hf = Inr es" using ingest_Inr by blast
  have "\<forall>p\<in>set es. aware L (timestamp (snd p))" using assms i by (rule aware_ingest)
  then have "list_all (\<lambda>e. aware L (timestamp e)) (fill_all SC es)"
    by (simp add: fill_all_def list_all_iff timestamp_fill)
  then show ?thesis
    by (simp add: merge_eq [OF i] sort_entries_aware)
qed

lemma merge_mixed:
  assumes "ingest L SC tf hf = Inr es" and "p \<in> set es" and "q \<in> set es"
    and "aware L (timestamp (snd p))" and "\<not> aware L (timestamp (snd q))"
  shows "parseThingSpeakMerge L SC tf hf = Inl TypeError"
proof -
  have "fill_entry SC (snd p) \<in> set (fill_all SC es)" "fill_entry SC (snd q) \<in> set (fill_all SC es)"
    using assms(2,3) by (auto simp: fill_all_def)
  then show ?thesis
    using assms(4,5)
    by (simp add: merge_eq [OF assms(1)] sort_entries_mixed [where a = "fill_entry SC (snd p)" and b = "fill_entry SC (snd q)"]
          timestamp_fill)
qed

subsection \<open>The example library evaluated\<close>

lemma demo_parse:
  "parse_created_at demo_lib (reading ''2026-02-25T10:00:00Z'' fs) = Some 1772013600"
  by (simp add: parse_created_at_def reading_def demo_lib_def utc_seconds_def replace_Z_def
        digit_of_def days_from_civil_def days_in_month_def)

lemma demo_key: "round_min demo_lib 1772013600 = 29533560"
  by (simp add: round_min_def demo_lib_def round_minutes_def)

lemma demo_aware: "all_aware demo_lib feed"
  by (simp add: all_aware_def demo_lib_def list_all_iff split: option.splits)

text \<open>
  A reading without an offset next to one with an offset: both parse, both are ingested,
  and the sort of line 97 raises. Alone, the reading without an offset is merged.
\<close>

lemma mixed_timestamps_raise:
  "parse_created_at zone_lib ex_naive = Some (False, 1772013600) \<and>
   parse_created_at zone_lib ex_later = Some (True, 1772014020) \<and>
   rows 5 (parseThingSpeakMerge zone_lib 5 [ex_naive, ex_later] []) = Inl TypeError \<and>
   rows 5 (parseThingSpeakMerge zone_lib 5 [ex_later] [ex_naive]) = Inl TypeError \<and>
   rows 1 (parseThingSpeakMerge zone_lib 1 [ex_naive] []) =
     Inr [((False, 1772013600), [(Some (Some 21.5), Some None, Some 1)])]"
  by code_simp

lemma demo_bad: "parse_created_at demo_lib ex_bad = None"
  by (simp add: parse_created_at_def ex_bad_def reading_def demo_lib_def utc_seconds_def replace_Z_def)

subsection \<open>The order of the keys\<close>

lemma keys_temp_reading:
  assumes "temp_reading L SC f es = Inr es'"
  shows "map fst es' =
     (case parse_created_at L f of None \<Rightarrow> map fst es | Some ts \<Rightarrow> add_key (round_min L ts) (map fst es))"
proof (cases "parse_created_at L f")
  case None
  with assms show ?thesis by (simp add: temp_reading_def)
next
  case (Some ts)
  obtain e' where e': "temp_fields L SC f (current es (round_min L ts) ts) = Inr e'"
    using temp_fields_Inr by blast
  from assms temp_reading_eq [OF Some e']
  have "es' = AList.update (round_min L ts) e' (touch (round_min L ts) ts es)" by simp
  then show ?thesis
    using Some by (simp add: keys_update_touch add_key_def)
qed

lemma keys_hum_reading:
  assumes "hum_reading L SC f es = Inr es'"
  shows "map fst es' =
     (case parse_created_at L f of None \<Rightarrow> map fst es | Some ts \<Rightarrow> add_key (round_min L ts) (map fst es))"
proof (cases "parse_created_at L f")
  case None
  with assms show ?thesis by (simp add: hum_reading_def)
next
  case (Some ts)
  from assms hum_reading_eq [OF Some hum_fields_eq]
  have "es' = AList.update (round_min L ts) (projr (hum_fields L SC f (current es (round_min L ts) ts)))
      (touch (round_min L ts) ts es)"
    by (simp add: hum_fields_eq)
  then show ?thesis
    using Some by (simp add: keys_update_touch add_key_def)
qed

lemma for_each_keys:
  assumes step: "\<And>f es es'. body f es = Inr es' \<Longrightarrow>
      map fst es' = (case parse_created_at L f of None \<Rightarrow> map fst es
                     | Some ts \<Rightarrow> add_key (round_min L ts) (map fst es))"
    and run: "for_each body fs es = Inr es'"
  shows "map fst es' = fold add_key (feed_keys L fs) (map fst es)"
  using run
proof (induction fs arbitrary: es)
  case Nil
  then show ?case by (simp add: feed_keys_def)
next
  case (Cons f fs)
  from Cons.prems obtain es1 where a: "body f es = Inr es1" and b: "for_each body fs es1 = Inr es'"
    by (auto split: sum.splits)
  have "map fst es' = fold add_key (feed_keys L fs) (map fst es1)" using Cons.IH [OF b] .
  also have "map fst es1 = (case parse_created_at L f of None \<Rightarrow> map fst es
                     | Some ts \<Rightarrow> add_key (round_min L ts) (map fst es))"
    using step [OF a] .
  finally show ?case
    by (simp add: feed_keys_def split: option.splits)
qed

lemma fold_add_key_first_seen: "fold add_key ks [] = first_seen ks"
proof (induction ks rule: rev_induct)
  case Nil
  show ?case by (simp add: first_seen_def)
next
  case (snoc k ks)
  have a: "fold add_key (ks @ [k]) [] = add_key k (first_seen ks)"
    using snoc.IH by simp
  have b: "first_seen (ks @ [k]) = add_key k (first_seen ks)"
    by (simp add: first_seen_def add_key_def)
  show ?case unfolding a b ..
qed

lemma keys_ingest:
  assumes "ingest L SC tf hf = Inr es"
  shows "map fst es = first_seen (feed_keys L tf @ feed_keys L hf)"
proof -
  from assms obtain es1 where a: "for_each (temp_reading L SC) tf [] = Inr es1"
    and b: "for_each (hum_reading L SC) hf es1 = Inr es"
    by (auto simp: ingest_def split: sum.splits)
  have "map fst es1 = fold add_key (feed_keys L tf) []"
    using for_each_keys [where body = "temp_reading L SC" and L = L, OF keys_temp_reading a] by simp
  moreover have "map fst es = fold add_key (feed_keys L hf) (map fst es1)"
    using for_each_keys [where body = "hum_reading L SC" and L = L, OF keys_hum_reading b] by simp
  ultimately have "map fst es = fold add_key (feed_keys L tf @ feed_keys L hf) []"
    by simp
  then show ?thesis by (simp only: fold_add_key_first_seen)
qed

subsection \<open>Skipped readings\<close>

lemma for_each_filter:
  assumes "\<And>x st. \<not> P x \<Longrightarrow> body x st = Inr st"
  shows "for_each body (filter P xs) st = for_each body xs st"
  by (induction xs arbitrary: st) (auto simp: assms split: sum.splits)

lemma ingest_filter:
  "ingest L SC (filter (\<lambda>f. parse_created_at L f \<noteq> None) tf)
               (filter (\<lambda>f. parse_created_at L f \<noteq> None) hf) = ingest L SC tf hf"
proof -
  have t: "for_each (temp_reading L SC) (filter (\<lambda>f. parse_created_at L f \<noteq> None) fs) st
      = for_each (temp_reading L SC) fs st" for fs st
    by (rule for_each_filter) (simp add: temp_reading_skip)
  have h: "for_each (hum_reading L SC) (filter (\<lambda>f. parse_created_at L f \<noteq> None) fs) st
      = for_each (hum_reading L SC) fs st" for fs st
    by (rule for_each_filter) (simp add: hum_reading_skip)
  show ?thesis unfolding ingest_def t h ..
qed

lemma sensors_5: "[1..<SENSOR_COUNT + 1] = [1, 2, 3, 4, 5]"
  by (simp add: SENSOR_COUNT_def upt_rec)

section \<open>The claims\<close>

subsection \<open>Temperature flag\<close>

text \<open>
  C1, as amended. For a temperature reading whose timestamp parses, with minute key
  \<open>key\<close>: in the packed-CSV format every sensor \<open>s\<close> in \<open>1..SC\<close> gets \<open>t_s\<close> and
  \<open>rh_s\<close> overwritten by the parsed parts; in the legacy format every sensor in
  \<open>1..min SC 8\<close> gets \<open>t_s\<close> overwritten. If \<open>ok_s\<close> is not yet in the record, it is
  set by this reading: to 1 when a value is present (CSV: one of \<open>t_s\<close>, \<open>rh_s\<close>; legacy:
  the value, and it is not zero), and to 0 otherwise. If \<open>ok_s\<close> is already in the record,
  be it 0 or 1, it keeps its value.
\<close>

theorem temp_flag_first_touch:
  assumes "parse_created_at L f = Some ts"
  shows "\<exists>es'. temp_reading L SC f es = Inr es' \<and>
     (is_csv (field f 2) \<longrightarrow>
        (\<forall>s\<in>{1..SC}.
           t_at es' (round_min L ts) s = Some (csv_val L (split_comma (or_empty (field f 2))) s) \<and>
           rh_at es' (round_min L ts) s = Some (csv_val L (split_comma (or_empty (field f 3))) s) \<and>
           ok_at es' (round_min L ts) s =
             (case ok_at es (round_min L ts) s of
                None \<Rightarrow> Some (if csv_val L (split_comma (or_empty (field f 2))) s \<noteq> None
                                 \<or> csv_val L (split_comma (or_empty (field f 3))) s \<noteq> None then 1 else 0)
              | Some b \<Rightarrow> Some b))) \<and>
     (\<not> is_csv (field f 2) \<longrightarrow>
        (\<forall>s\<in>{1..min SC 8}.
           t_at es' (round_min L ts) s = Some (num_parse L (field f s)) \<and>
           ok_at es' (round_min L ts) s =
             (case ok_at es (round_min L ts) s of
                None \<Rightarrow> Some (if num_parse L (field f s) \<noteq> None \<and> num_parse L (field f s) \<noteq> Some 0
                              then 1 else 0)
              | Some b \<Rightarrow> Some b)))"
proof (cases "is_csv (field f 2)")
  case True
  show ?thesis
    using temp_reading_csv [OF assms True, of SC es] True by (auto split: option.splits)
next
  case False
  show ?thesis
    using temp_reading_legacy [OF assms False, of SC es] False by (auto split: option.splits)
qed

theorem temp_flag_first_touch_witness:
  "parse_created_at demo_lib ex_csv = Some 1772013600 \<and>
   is_csv (field ex_csv 2) \<and>
   (1::nat) \<in> {1..5} \<and>
   ok_at ex_flag0 29533560 1 = Some 0 \<and>
   (\<exists>es'. temp_reading demo_lib 5 ex_csv ex_flag0 = Inr es' \<and>
          t_at es' 29533560 1 = Some (Some 21.5) \<and>
          rh_at es' 29533560 1 = Some (Some 40) \<and>
          ok_at es' 29533560 1 = Some 0)"
proof -
  have p: "parse_created_at demo_lib ex_csv = Some 1772013600"
    unfolding ex_csv_def by (rule demo_parse)
  have c: "is_csv (field ex_csv 2)"
    by (simp add: is_csv_def ex_csv_def reading_def)
  have s: "(1::nat) \<in> {1..5}" by simp
  have o: "ok_at ex_flag0 29533560 1 = Some 0" by (simp add: ok_at_def ex_flag0_def)
  have tv: "csv_val demo_lib (split_comma (or_empty (field ex_csv 2))) 1 = Some 21.5"
    by code_simp
  have hv: "csv_val demo_lib (split_comma (or_empty (field ex_csv 3))) 1 = Some 40"
    by code_simp
  from temp_flag_first_touch [where SC = 5 and es = ex_flag0, OF p]
  obtain es' where A: "temp_reading demo_lib 5 ex_csv ex_flag0 = Inr es'"
    and B: "is_csv (field ex_csv 2) \<longrightarrow>
        (\<forall>s\<in>{1..5}.
           t_at es' (round_min demo_lib 1772013600) s = Some (csv_val demo_lib (split_comma (or_empty (field ex_csv 2))) s) \<and>
           rh_at es' (round_min demo_lib 1772013600) s = Some (csv_val demo_lib (split_comma (or_empty (field ex_csv 3))) s) \<and>
           ok_at es' (round_min demo_lib 1772013600) s =
             (case ok_at ex_flag0 (round_min demo_lib 1772013600) s of
                None \<Rightarrow> Some (if csv_val demo_lib (split_comma (or_empty (field ex_csv 2))) s \<noteq> None
                                 \<or> csv_val demo_lib (split_comma (or_empty (field ex_csv 3))) s \<noteq> None then 1 else 0)
              | Some b \<Rightarrow> Some b))"
    by blast
  from B c s have "t_at es' (round_min demo_lib 1772013600) 1 = Some (csv_val demo_lib (split_comma (or_empty (field ex_csv 2))) 1) \<and>
           rh_at es' (round_min demo_lib 1772013600) 1 = Some (csv_val demo_lib (split_comma (or_empty (field ex_csv 3))) 1) \<and>
           ok_at es' (round_min demo_lib 1772013600) 1 =
             (case ok_at ex_flag0 (round_min demo_lib 1772013600) 1 of
                None \<Rightarrow> Some (if csv_val demo_lib (split_comma (or_empty (field ex_csv 2))) 1 \<noteq> None
                                 \<or> csv_val demo_lib (split_comma (or_empty (field ex_csv 3))) 1 \<noteq> None then 1 else 0)
              | Some b \<Rightarrow> Some b)"
    by blast
  then have C: "t_at es' 29533560 1 = Some (Some 21.5) \<and> rh_at es' 29533560 1 = Some (Some 40) \<and>
      ok_at es' 29533560 1 = Some 0"
    unfolding demo_key tv hv o by simp
  show ?thesis
    using p c s o A C by blast
qed

text \<open>
  C1 as stated fails in three places. A packed-CSV reading without a value does not
  leave \<open>ok1\<close> unset, it sets \<open>ok1 = 0\<close> (first conjunct: the state after ingestion,
  before the fill). A legacy reading whose value is present and zero sets \<open>ok1 = 0\<close>,
  not 1 (second conjunct). A later temperature reading of the same minute whose values
  parse overwrites \<open>t1\<close> and \<open>rh1\<close> and leaves \<open>ok1 = 0\<close> (third conjunct: the
  output).
\<close>

theorem temp_flag_later_reading_counterexample:
  "(case ingest demo_lib 5 [ex_null_csv] [] of
      Inl err \<Rightarrow> False
    | Inr es \<Rightarrow> t_at es 29533560 1 = Some None \<and> rh_at es 29533560 1 = Some None
                 \<and> ok_at es 29533560 1 = Some 0) \<and>
   (case ingest demo_lib 5 [ex_legacy_zero] [] of
      Inl err \<Rightarrow> False
    | Inr es \<Rightarrow> t_at es 29533560 1 = Some (Some 0) \<and> ok_at es 29533560 1 = Some 0) \<and>
   rows 5 (parseThingSpeakMerge demo_lib 5 [ex_null_csv, ex_csv] []) =
     Inr [(1772013600,
           [(Some (Some 21.5), Some (Some 40), Some 0), (Some (Some 22), Some (Some 41), Some 0),
            (Some None, Some None, Some 0), (Some None, Some None, Some 0),
            (Some None, Some None, Some 0)])]"
  by code_simp

subsection \<open>Humidity flag\<close>

text \<open>
  C2. For a humidity reading whose timestamp parses and every sensor \<open>s\<close> in
  \<open>1..min SC 8\<close>: \<open>rh_s\<close> becomes the parsed value of \<open>field{s}\<close>; if that value is
  present and not zero, \<open>ok_s\<close> becomes 1 whatever it was; if it is absent or zero,
  \<open>ok_s\<close> is left as it was; and \<open>ok_s = 1\<close> stays 1 in every case.
\<close>

theorem humidity_override:
  assumes "parse_created_at L f = Some ts" and "s \<in> {1..min SC 8}"
  shows "\<exists>es'. hum_reading L SC f es = Inr es' \<and>
     rh_at es' (round_min L ts) s = Some (num_parse L (field f s)) \<and>
     (num_parse L (field f s) \<noteq> None \<and> num_parse L (field f s) \<noteq> Some 0
        \<longrightarrow> ok_at es' (round_min L ts) s = Some 1) \<and>
     (num_parse L (field f s) = None \<or> num_parse L (field f s) = Some 0
        \<longrightarrow> ok_at es' (round_min L ts) s = ok_at es (round_min L ts) s) \<and>
     (ok_at es (round_min L ts) s = Some 1 \<longrightarrow> ok_at es' (round_min L ts) s = Some 1)"
  using hum_reading_obs [OF assms(1), of SC es] assms(2) by auto

theorem humidity_override_witness:
  "parse_created_at demo_lib ex_hum = Some 1772013600 \<and>
   (1::nat) \<in> {1..min 5 8} \<and> (2::nat) \<in> {1..min 5 8} \<and>
   num_parse demo_lib (field ex_hum 1) = Some 40 \<and>
   num_parse demo_lib (field ex_hum 2) = Some 0 \<and>
   ok_at ex_flag0 29533560 1 = Some 0 \<and>
   ok_at ex_flag0 29533560 2 = None \<and>
   (\<exists>es'. hum_reading demo_lib 5 ex_hum ex_flag0 = Inr es' \<and>
      rh_at es' 29533560 1 = Some (Some 40) \<and> ok_at es' 29533560 1 = Some 1 \<and>
      rh_at es' 29533560 2 = Some (Some 0) \<and> ok_at es' 29533560 2 = None)"
proof -
  have p: "parse_created_at demo_lib ex_hum = Some 1772013600"
    unfolding ex_hum_def by (rule demo_parse)
  have s1: "(1::nat) \<in> {1..min 5 8}" and s2: "(2::nat) \<in> {1..min 5 8}" by simp_all
  have v1: "num_parse demo_lib (field ex_hum 1) = Some 40" by code_simp
  have v2: "num_parse demo_lib (field ex_hum 2) = Some 0" by code_simp
  have o1: "ok_at ex_flag0 29533560 1 = Some 0" by (simp add: ok_at_def ex_flag0_def)
  have o2: "ok_at ex_flag0 29533560 2 = None" by (simp add: ok_at_def ex_flag0_def)
  from humidity_override [OF p s1, of ex_flag0, unfolded demo_key v1]
  obtain es1 where a1: "hum_reading demo_lib 5 ex_hum ex_flag0 = Inr es1"
    and b1: "rh_at es1 29533560 1 = Some (Some 40)" "ok_at es1 29533560 1 = Some 1"
    by auto
  from humidity_override [OF p s2, of ex_flag0, unfolded demo_key v2 o2]
  obtain es2 where a2: "hum_reading demo_lib 5 ex_hum ex_flag0 = Inr es2"
    and b2: "rh_at es2 29533560 2 = Some (Some 0)" "ok_at es2 29533560 2 = None"
    by auto
  from a1 a2 have "es2 = es1" by simp
  with p s1 s2 v1 v2 o1 o2 a1 b1 b2 show ?thesis by blast
qed

subsection \<open>Legacy zero\<close>

text \<open>
  C3. For a legacy (non-CSV) temperature reading whose timestamp parses and a sensor
  \<open>s\<close> in \<open>1..min SC 8\<close> whose \<open>field{s}\<close> parses to exactly 0: ingested at a key where
  \<open>ok_s\<close> was not set, the record has \<open>t_s = 0.0\<close> and \<open>ok_s = 0\<close>; and merged as the
  only reading, the output record has \<open>t_s = 0.0\<close> and \<open>ok_s = 0\<close>.
\<close>

theorem legacy_zero_invalid:
  assumes "parse_created_at L f = Some ts" and "\<not> is_csv (field f 2)"
    and "s \<in> {1..min SC 8}" and "num_parse L (field f s) = Some 0"
  shows "(ok_at es (round_min L ts) s = None \<longrightarrow>
          (\<exists>es'. temp_reading L SC f es = Inr es' \<and>
             t_at es' (round_min L ts) s = Some (Some 0) \<and> ok_at es' (round_min L ts) s = Some 0)) \<and>
         (\<exists>e. parseThingSpeakMerge L SC [f] [] = Inr [e] \<and>
             t_s e s = Some (Some 0) \<and> ok_s e s = Some 0)"
proof -
  have a: "ok_at es (round_min L ts) s = None \<longrightarrow>
          (\<exists>es'. temp_reading L SC f es = Inr es' \<and>
             t_at es' (round_min L ts) s = Some (Some 0) \<and> ok_at es' (round_min L ts) s = Some 0)"
    using temp_reading_legacy [OF assms(1,2), of SC es] assms(3,4) by auto
  have "ingest L SC [f] [] = Inr [(round_min L ts, projr (temp_fields L SC f (new_entry ts)))]"
    by (simp add: ingest_def temp_reading_empty [OF assms(1) temp_fields_legacy [OF assms(2)]]
          temp_fields_legacy [OF assms(2)])
  from merge_single [OF this]
  have b: "\<exists>e. parseThingSpeakMerge L SC [f] [] = Inr [e] \<and>
             t_s e s = Some (Some 0) \<and> ok_s e s = Some 0"
    using assms(3,4)
    by (simp add: temp_fields_legacy [OF assms(2)] t_s_fill ok_s_fill new_entry_def)
  from a b show ?thesis by blast
qed

theorem legacy_zero_invalid_witness:
  "parse_created_at demo_lib ex_legacy_zero = Some 1772013600 \<and>
   \<not> is_csv (field ex_legacy_zero 2) \<and>
   (1::nat) \<in> {1..min 5 8} \<and>
   num_parse demo_lib (field ex_legacy_zero 1) = Some 0 \<and>
   ok_at ([] :: (int, real) entries) 29533560 1 = None \<and>
   (\<exists>es'. temp_reading demo_lib 5 ex_legacy_zero [] = Inr es' \<and>
      t_at es' 29533560 1 = Some (Some 0) \<and> ok_at es' 29533560 1 = Some 0) \<and>
   (\<exists>e. parseThingSpeakMerge demo_lib 5 [ex_legacy_zero] [] = Inr [e] \<and>
      t_s e 1 = Some (Some 0) \<and> ok_s e 1 = Some 0)"
proof -
  have p: "parse_created_at demo_lib ex_legacy_zero = Some 1772013600"
    unfolding ex_legacy_zero_def by (rule demo_parse)
  have c: "\<not> is_csv (field ex_legacy_zero 2)"
    by (simp add: is_csv_def ex_legacy_zero_def reading_def)
  have s: "(1::nat) \<in> {1..min 5 8}" by simp
  have v: "num_parse demo_lib (field ex_legacy_zero 1) = Some 0" by code_simp
  have o: "ok_at ([] :: (int, real) entries) 29533560 1 = None" by (simp add: ok_at_def)
  show ?thesis
    using legacy_zero_invalid [OF p c s v, of "[]", unfolded demo_key] p c s v o by blast
qed

subsection \<open>Humidity clears a value\<close>

text \<open>
  C4. A humidity reading whose timestamp parses sets \<open>rh_s\<close>, for every sensor \<open>s\<close> in
  \<open>1..min SC 8\<close>, to the parsed value of \<open>field{s}\<close>, whatever that value is; when the
  parsed value is None (the field is missing, null, an empty token or not a number),
  \<open>rh_s\<close> becomes None and \<open>ok_s\<close> stays as it was. So when a packed-CSV temperature
  reading gave sensor \<open>s\<close> no temperature and a humidity \<open>v\<close> (hence \<open>ok_s = 1\<close>), and a
  humidity reading of the same minute has no value in \<open>field{s}\<close>, the output record
  has \<open>ok_s = 1\<close> with \<open>t_s = None\<close> and \<open>rh_s = None\<close>.
\<close>

theorem humidity_clears_rh:
  assumes ph: "parse_created_at L fh = Some th" and s: "s \<in> {1..min SC 8}"
  shows "(\<exists>es'. hum_reading L SC fh es = Inr es' \<and>
            rh_at es' (round_min L th) s = Some (num_parse L (field fh s)) \<and>
            (num_parse L (field fh s) = None \<longrightarrow>
               rh_at es' (round_min L th) s = Some None \<and>
               ok_at es' (round_min L th) s = ok_at es (round_min L th) s)) \<and>
         (parse_created_at L ft = Some tt \<and> round_min L th = round_min L tt \<and>
          is_csv (field ft 2) \<and>
          csv_value L (split_comma (or_empty (field ft 2))) s = Inr None \<and>
          csv_value L (split_comma (or_empty (field ft 3))) s = Inr (Some v) \<and>
          num_parse L (field fh s) = None \<longrightarrow>
            (\<exists>es1. ingest L SC [ft] [] = Inr es1 \<and>
               t_at es1 (round_min L tt) s = Some None \<and>
               rh_at es1 (round_min L tt) s = Some (Some v) \<and>
               ok_at es1 (round_min L tt) s = Some 1) \<and>
            (\<exists>e. parseThingSpeakMerge L SC [ft] [fh] = Inr [e] \<and>
               t_s e s = Some None \<and> rh_s e s = Some None \<and> ok_s e s = Some 1))"
proof -
  have a: "\<exists>es'. hum_reading L SC fh es = Inr es' \<and>
            rh_at es' (round_min L th) s = Some (num_parse L (field fh s)) \<and>
            (num_parse L (field fh s) = None \<longrightarrow>
               rh_at es' (round_min L th) s = Some None \<and>
               ok_at es' (round_min L th) s = ok_at es (round_min L th) s)"
    using hum_reading_obs [OF ph, of SC es] s by auto
  have b: "(\<exists>es1. ingest L SC [ft] [] = Inr es1 \<and>
               t_at es1 (round_min L tt) s = Some None \<and>
               rh_at es1 (round_min L tt) s = Some (Some v) \<and>
               ok_at es1 (round_min L tt) s = Some 1) \<and>
            (\<exists>e. parseThingSpeakMerge L SC [ft] [fh] = Inr [e] \<and>
               t_s e s = Some None \<and> rh_s e s = Some None \<and> ok_s e s = Some 1)"
    if pt: "parse_created_at L ft = Some tt" and same: "round_min L th = round_min L tt"
      and csv: "is_csv (field ft 2)"
      and tv: "csv_value L (split_comma (or_empty (field ft 2))) s = Inr None"
      and hv: "csv_value L (split_comma (or_empty (field ft 3))) s = Inr (Some v)"
      and n: "num_parse L (field fh s) = None"
  proof -
    have s': "s \<in> {1..SC}" using s by auto
    have tv': "csv_val L (split_comma (or_empty (field ft 2))) s = None"
      using tv by (simp add: csv_value_Inr)
    have hv': "csv_val L (split_comma (or_empty (field ft 3))) s = Some v"
      using hv by (simp add: csv_value_Inr)
    obtain e1 where e1: "temp_fields L SC ft (new_entry tt) = Inr e1"
      using temp_fields_Inr by blast
    have e1_eq: "e1 = projr (temp_fields L SC ft (new_entry tt))" using e1 by simp
    have t1: "t_s e1 s = Some None" and r1: "rh_s e1 s = Some (Some v)" and o1: "ok_s e1 s = Some 1"
      unfolding e1_eq temp_fields_csv [OF csv] using s' tv' hv' by (simp_all add: new_entry_def)
    have i1: "ingest L SC [ft] [] = Inr [(round_min L tt, e1)]"
      by (simp add: ingest_def temp_reading_empty [OF pt e1])
    have b1: "\<exists>es1. ingest L SC [ft] [] = Inr es1 \<and>
              t_at es1 (round_min L tt) s = Some None \<and>
              rh_at es1 (round_min L tt) s = Some (Some v) \<and>
              ok_at es1 (round_min L tt) s = Some 1"
      using i1 t1 r1 o1 by (simp add: t_at_def rh_at_def ok_at_def)
    obtain e2 where e2: "hum_fields L SC fh e1 = Inr e2" by (simp add: hum_fields_eq)
    have e2_eq: "e2 = projr (hum_fields L SC fh e1)" using e2 by simp
    have t2: "t_s e2 s = Some None" and r2: "rh_s e2 s = Some None" and o2: "ok_s e2 s = Some 1"
      unfolding e2_eq hum_fields_eq using s n t1 o1 by simp_all
    have "ingest L SC [ft] [fh] = Inr [(round_min L tt, e2)]"
      by (simp add: ingest_def temp_reading_empty [OF pt e1] hum_reading_same_key [OF ph same e2])
    from merge_single [OF this]
    have b2: "\<exists>e. parseThingSpeakMerge L SC [ft] [fh] = Inr [e] \<and>
              t_s e s = Some None \<and> rh_s e s = Some None \<and> ok_s e s = Some 1"
      using t2 r2 o2 by (simp add: t_s_fill rh_s_fill ok_s_fill)
    from b1 b2 show ?thesis by blast
  qed
  from a b show ?thesis by blast
qed

theorem humidity_clears_rh_witness:
  "parse_created_at demo_lib ex_hum_null = Some 1772013600 \<and>
   (1::nat) \<in> {1..min 5 8} \<and> (2::nat) \<in> {1..min 5 8} \<and>
   num_parse demo_lib (field ex_hum_null 1) = None \<and>
   num_parse demo_lib (field ex_hum_null 2) = Some 55 \<and>
   parse_created_at demo_lib ex_rh_csv = Some 1772013600 \<and>
   is_csv (field ex_rh_csv 2) \<and>
   csv_value demo_lib (split_comma (or_empty (field ex_rh_csv 2))) 1 = Inr None \<and>
   csv_value demo_lib (split_comma (or_empty (field ex_rh_csv 3))) 1 = Inr (Some 40) \<and>
   ok_at ex_flag0 29533560 1 = Some 0 \<and>
   (\<exists>es'. hum_reading demo_lib 5 ex_hum_null ex_flag0 = Inr es' \<and>
      rh_at es' 29533560 1 = Some None \<and> ok_at es' 29533560 1 = Some 0 \<and>
      rh_at es' 29533560 2 = Some (Some 55)) \<and>
   (\<exists>es1. ingest demo_lib 5 [ex_rh_csv] [] = Inr es1 \<and>
      t_at es1 29533560 1 = Some None \<and> rh_at es1 29533560 1 = Some (Some 40) \<and>
      ok_at es1 29533560 1 = Some 1) \<and>
   (\<exists>e. parseThingSpeakMerge demo_lib 5 [ex_rh_csv] [ex_hum_null] = Inr [e] \<and>
      t_s e 1 = Some None \<and> rh_s e 1 = Some None \<and> ok_s e 1 = Some 1)"
proof -
  have ph: "parse_created_at demo_lib ex_hum_null = Some 1772013600"
    unfolding ex_hum_null_def by (rule demo_parse)
  have pt: "parse_created_at demo_lib ex_rh_csv = Some 1772013600"
    unfolding ex_rh_csv_def by (rule demo_parse)
  have s1: "(1::nat) \<in> {1..min 5 8}" and s2: "(2::nat) \<in> {1..min 5 8}" by simp_all
  have n1: "num_parse demo_lib (field ex_hum_null 1) = None" by code_simp
  have n2: "num_parse demo_lib (field ex_hum_null 2) = Some 55" by code_simp
  have c: "is_csv (field ex_rh_csv 2)"
    by (simp add: is_csv_def ex_rh_csv_def reading_def)
  have tv: "csv_value demo_lib (split_comma (or_empty (field ex_rh_csv 2))) 1 = Inr None"
    by code_simp
  have hv: "csv_value demo_lib (split_comma (or_empty (field ex_rh_csv 3))) 1 = Inr (Some 40)"
    by code_simp
  have o: "ok_at ex_flag0 29533560 1 = Some 0" by (simp add: ok_at_def ex_flag0_def)
  note T1 = humidity_clears_rh [OF ph s1, where es = ex_flag0 and ft = ex_rh_csv and tt = 1772013600
      and v = 40, unfolded demo_key]
  note T2 = humidity_clears_rh [OF ph s2, where es = ex_flag0 and ft = ex_rh_csv and tt = 1772013600
      and v = 40, unfolded demo_key]
  from T1 n1 o obtain es1 where a1: "hum_reading demo_lib 5 ex_hum_null ex_flag0 = Inr es1"
    and b1: "rh_at es1 29533560 1 = Some None" "ok_at es1 29533560 1 = Some 0"
    by auto
  from T2 n2 obtain es2 where a2: "hum_reading demo_lib 5 ex_hum_null ex_flag0 = Inr es2"
    and b2: "rh_at es2 29533560 2 = Some (Some 55)"
    by auto
  from a1 a2 have "es2 = es1" by simp
  with a1 b1 b2 have A: "\<exists>es'. hum_reading demo_lib 5 ex_hum_null ex_flag0 = Inr es' \<and>
      rh_at es' 29533560 1 = Some None \<and> ok_at es' 29533560 1 = Some 0 \<and>
      rh_at es' 29533560 2 = Some (Some 55)"
    by blast
  from T1 pt c tv hv n1
  have B: "(\<exists>es1. ingest demo_lib 5 [ex_rh_csv] [] = Inr es1 \<and>
      t_at es1 29533560 1 = Some None \<and> rh_at es1 29533560 1 = Some (Some 40) \<and>
      ok_at es1 29533560 1 = Some 1) \<and>
   (\<exists>e. parseThingSpeakMerge demo_lib 5 [ex_rh_csv] [ex_hum_null] = Inr [e] \<and>
      t_s e 1 = Some None \<and> rh_s e 1 = Some None \<and> ok_s e 1 = Some 1)"
    by simp
  from ph s1 s2 n1 n2 pt c tv hv o A B [THEN conjunct1] B [THEN conjunct2]
  show ?thesis by - (intro conjI; assumption)
qed

subsection \<open>The end-to-end example\<close>

text \<open>
  C5. With \<open>SENSOR_COUNT = 5\<close>, the temperature feed
  \<open>[{created_at: "2026-02-25T10:00:00Z", field2: "21.5,22.0", field3: "40,41"}]\<close> and an
  empty humidity feed give one record, at the parsed timestamp, with \<open>t1 = 21.5\<close>,
  \<open>rh1 = 40.0\<close>, \<open>ok1 = 1\<close>, \<open>t2 = 22.0\<close>, \<open>rh2 = 41.0\<close>, \<open>ok2 = 1\<close>, and None, None, 0
  for the sensors 3, 4 and 5. This holds in every library in which the timestamp parses
  and \<open>float\<close> reads the four literals as the numbers they denote.
\<close>

theorem end_to_end_csv:
  fixes L :: "('ts, real) pylib"
  assumes ts: "fromisoformat L ''2026-02-25T10:00:00+00:00'' = Inr ts"
    and f1: "py_float L ''21.5'' = Inr 21.5" and f2: "py_float L ''22.0'' = Inr 22"
    and f3: "py_float L ''40'' = Inr 40" and f4: "py_float L ''41'' = Inr 41"
  shows "rows SENSOR_COUNT (merge_snapshot L \<lparr>tempFeeds = Some [ex_csv], humFeeds = Some []\<rparr>) =
     Inr [(ts, [(Some (Some 21.5), Some (Some 40), Some 1),
                (Some (Some 22), Some (Some 41), Some 1),
                (Some None, Some None, Some 0),
                (Some None, Some None, Some 0),
                (Some None, Some None, Some 0)])]"
proof -
  have p: "parse_created_at L ex_csv = Some ts"
    using ts by (simp add: parse_created_at_def ex_csv_def reading_def replace_Z_def)
  have c: "is_csv (field ex_csv 2)"
    by (simp add: is_csv_def ex_csv_def reading_def)
  have tp: "split_comma (or_empty (field ex_csv 2)) = [''21.5'', ''22.0'']"
    by (simp add: ex_csv_def reading_def or_empty_def)
  have hp: "split_comma (or_empty (field ex_csv 3)) = [''40'', ''41'']"
    by (simp add: ex_csv_def reading_def or_empty_def)
  have tvs: "csv_val L [''21.5'', ''22.0''] (Suc 0) = Some 21.5" "csv_val L [''21.5'', ''22.0''] 2 = Some 22"
    "csv_val L [''21.5'', ''22.0''] 3 = None" "csv_val L [''21.5'', ''22.0''] 4 = None"
    "csv_val L [''21.5'', ''22.0''] 5 = None"
    using f1 f2 by (simp_all add: csv_val_def num_parse_def)
  have hvs: "csv_val L [''40'', ''41''] (Suc 0) = Some 40" "csv_val L [''40'', ''41''] 2 = Some 41"
    "csv_val L [''40'', ''41''] 3 = None" "csv_val L [''40'', ''41''] 4 = None"
    "csv_val L [''40'', ''41''] 5 = None"
    using f3 f4 by (simp_all add: csv_val_def num_parse_def)
  obtain e1 where e1: "temp_fields L SENSOR_COUNT ex_csv (new_entry ts) = Inr e1"
    using temp_fields_Inr by blast
  have e1_eq: "e1 = projr (temp_fields L SENSOR_COUNT ex_csv (new_entry ts))" using e1 by simp
  have "ingest L SENSOR_COUNT [ex_csv] [] = Inr [(round_min L ts, e1)]"
    by (simp add: ingest_def temp_reading_empty [OF p e1])
  from merge_single [OF this]
  have m: "merge_snapshot L \<lparr>tempFeeds = Some [ex_csv], humFeeds = Some []\<rparr> = Inr [fill_entry SENSOR_COUNT e1]"
    by (simp add: merge_snapshot_def get_feed_def)
  have "row SENSOR_COUNT (fill_entry SENSOR_COUNT e1) =
     (ts, [(Some (Some 21.5), Some (Some 40), Some 1),
                (Some (Some 22), Some (Some 41), Some 1),
                (Some None, Some None, Some 0),
                (Some None, Some None, Some 0),
                (Some None, Some None, Some 0)])"
    unfolding row_def sensors_5 e1_eq temp_fields_csv [OF c] tp hp
    by (simp add: timestamp_fill t_s_fill rh_s_fill ok_s_fill tvs hvs new_entry_def SENSOR_COUNT_def)
  then show ?thesis by (simp add: m rows_def)
qed

theorem end_to_end_csv_witness:
  "fromisoformat demo_lib ''2026-02-25T10:00:00+00:00'' = Inr 1772013600 \<and>
   py_float demo_lib ''21.5'' = Inr 21.5 \<and> py_float demo_lib ''22.0'' = Inr 22 \<and>
   py_float demo_lib ''40'' = Inr 40 \<and> py_float demo_lib ''41'' = Inr 41 \<and>
   rows SENSOR_COUNT (merge_snapshot demo_lib \<lparr>tempFeeds = Some [ex_csv], humFeeds = Some []\<rparr>) =
     Inr [(1772013600, [(Some (Some 21.5), Some (Some 40), Some 1),
                (Some (Some 22), Some (Some 41), Some 1),
                (Some None, Some None, Some 0),
                (Some None, Some None, Some 0),
                (Some None, Some None, Some 0)])]"
proof -
  have ts: "fromisoformat demo_lib ''2026-02-25T10:00:00+00:00'' = Inr 1772013600"
    by (simp add: demo_lib_def utc_seconds_def digit_of_def days_from_civil_def days_in_month_def)
  have f1: "py_float demo_lib ''21.5'' = Inr 21.5" and f2: "py_float demo_lib ''22.0'' = Inr 22"
    and f3: "py_float demo_lib ''40'' = Inr 40" and f4: "py_float demo_lib ''41'' = Inr 41"
    by (simp_all add: demo_lib_def dec_float_def digit_of_def)
  show ?thesis
    using end_to_end_csv [OF ts f1 f2 f3 f4] ts f1 f2 f3 f4 by blast
qed

subsection \<open>Completeness\<close>

text \<open>
  C6. Every record of every output the merge returns has exactly the keys \<open>t{s}\<close>,
  \<open>rh{s}\<close>, \<open>ok{s}\<close> for \<open>s\<close> in \<open>1..SC\<close>: the output is the sorted list of the filled
  records of \<open>entries\<close>, a key that ingestion did not set is filled with None (\<open>t_s\<close>,
  \<open>rh_s\<close>) or 0 (\<open>ok_s\<close>), and a key that ingestion set keeps its value. The merge
  returns an output whenever every timestamp that parses carries an offset.
\<close>

theorem completeness:
  "(\<forall>out. parseThingSpeakMerge L SC tf hf = Inr out \<longrightarrow>
      (\<exists>es. ingest L SC tf hf = Inr es \<and>
         out = sort_key (\<lambda>e. instant L (timestamp e)) (fill_all SC es) \<and>
         (\<forall>e\<in>set out.
            dom (t_s e) = {1..SC} \<and> dom (rh_s e) = {1..SC} \<and> dom (ok_s e) = {1..SC}) \<and>
         (\<forall>e\<in>set (map snd es). \<forall>s\<in>{1..SC}.
            t_s (fill_entry SC e) s = (case t_s e s of None \<Rightarrow> Some None | Some v \<Rightarrow> Some v) \<and>
            rh_s (fill_entry SC e) s = (case rh_s e s of None \<Rightarrow> Some None | Some v \<Rightarrow> Some v) \<and>
            ok_s (fill_entry SC e) s = (case ok_s e s of None \<Rightarrow> Some 0 | Some b \<Rightarrow> Some b)))) \<and>
   (all_aware L tf \<and> all_aware L hf \<longrightarrow> (\<exists>out. parseThingSpeakMerge L SC tf hf = Inr out))"
proof -
  have a: "\<exists>es. ingest L SC tf hf = Inr es \<and>
         out = sort_key (\<lambda>e. instant L (timestamp e)) (fill_all SC es) \<and>
         (\<forall>e\<in>set out.
            dom (t_s e) = {1..SC} \<and> dom (rh_s e) = {1..SC} \<and> dom (ok_s e) = {1..SC}) \<and>
         (\<forall>e\<in>set (map snd es). \<forall>s\<in>{1..SC}.
            t_s (fill_entry SC e) s = (case t_s e s of None \<Rightarrow> Some None | Some v \<Rightarrow> Some v) \<and>
            rh_s (fill_entry SC e) s = (case rh_s e s of None \<Rightarrow> Some None | Some v \<Rightarrow> Some v) \<and>
            ok_s (fill_entry SC e) s = (case ok_s e s of None \<Rightarrow> Some 0 | Some b \<Rightarrow> Some b))"
    if m: "parseThingSpeakMerge L SC tf hf = Inr out" for out
  proof -
    obtain es where i: "ingest L SC tf hf = Inr es" using ingest_Inr by blast
    from m have "sort_entries L (fill_all SC es) = Inr out" by (simp add: merge_eq [OF i])
    then have o: "out = sort_key (\<lambda>e. instant L (timestamp e)) (fill_all SC es)"
      by (rule sort_entries_Inr)
    have k: "\<forall>p\<in>set es. keys_upto SC (snd p)" using i by (rule keys_upto_ingest)
    have d: "\<forall>e\<in>set out.
          dom (t_s e) = {1..SC} \<and> dom (rh_s e) = {1..SC} \<and> dom (ok_s e) = {1..SC}"
    proof
      fix e assume "e \<in> set out"
      then obtain p where p: "p \<in> set es" and e: "e = fill_entry SC (snd p)"
        unfolding o by (auto simp: fill_all_def)
      from k p have "keys_upto SC (snd p)" by blast
      from dom_fill [OF this] show "dom (t_s e) = {1..SC} \<and> dom (rh_s e) = {1..SC} \<and> dom (ok_s e) = {1..SC}"
        unfolding e .
    qed
    have f: "\<forall>e\<in>set (map snd es). \<forall>s\<in>{1..SC}.
          t_s (fill_entry SC e) s = (case t_s e s of None \<Rightarrow> Some None | Some v \<Rightarrow> Some v) \<and>
          rh_s (fill_entry SC e) s = (case rh_s e s of None \<Rightarrow> Some None | Some v \<Rightarrow> Some v) \<and>
          ok_s (fill_entry SC e) s = (case ok_s e s of None \<Rightarrow> Some 0 | Some b \<Rightarrow> Some b)"
      by (simp add: t_s_fill rh_s_fill ok_s_fill split: option.splits)
    from i o d f show ?thesis by blast
  qed
  have b: "all_aware L tf \<and> all_aware L hf \<longrightarrow> (\<exists>out. parseThingSpeakMerge L SC tf hf = Inr out)"
    using merge_aware by blast
  from a b show ?thesis by blast
qed

theorem completeness_witness:
  "all_aware demo_lib [] \<and> all_aware demo_lib [ex_hum] \<and>
   (\<exists>out. parseThingSpeakMerge demo_lib 5 [] [ex_hum] = Inr out \<and>
     list_all (\<lambda>e. dom (t_s e) = {1..5} \<and> dom (rh_s e) = {1..5} \<and> dom (ok_s e) = {1..5}) out \<and>
     rows 5 (Inr out) =
       Inr [(1772013600, [(Some None, Some (Some 40), Some 1),
                          (Some None, Some (Some 0), Some 0),
                          (Some None, Some None, Some 0),
                          (Some None, Some None, Some 0),
                          (Some None, Some None, Some 0)])])"
proof -
  have a1: "all_aware demo_lib []" and a2: "all_aware demo_lib [ex_hum]"
    by (rule demo_aware)+
  note T = completeness [of demo_lib 5 "[]" "[ex_hum]"]
  from T a1 a2 obtain out where m: "parseThingSpeakMerge demo_lib 5 [] [ex_hum] = Inr out"
    by blast
  from T m have d: "\<forall>e\<in>set out.
        dom (t_s e) = {1..5} \<and> dom (rh_s e) = {1..5} \<and> dom (ok_s e) = {1..5}"
    by blast
  have r: "rows 5 (parseThingSpeakMerge demo_lib 5 [] [ex_hum]) =
       Inr [(1772013600, [(Some None, Some (Some 40), Some 1),
                          (Some None, Some (Some 0), Some 0),
                          (Some None, Some None, Some 0),
                          (Some None, Some None, Some 0),
                          (Some None, Some None, Some 0)])]"
    by code_simp
  from d have l: "list_all (\<lambda>e. dom (t_s e) = {1..5} \<and> dom (rh_s e) = {1..5} \<and> dom (ok_s e) = {1..5}) out"
    by (simp only: list_all_iff)
  from r have r': "rows 5 (Inr out) =
       Inr [(1772013600, [(Some None, Some (Some 40), Some 1),
                          (Some None, Some (Some 0), Some 0),
                          (Some None, Some None, Some 0),
                          (Some None, Some None, Some 0),
                          (Some None, Some None, Some 0)])]"
    unfolding m .
  show ?thesis
  proof (intro conjI exI)
    show "all_aware demo_lib []" by (rule a1)
    show "all_aware demo_lib [ex_hum]" by (rule a2)
    show "parseThingSpeakMerge demo_lib 5 [] [ex_hum] = Inr out" by (rule m)
    show "list_all (\<lambda>e. dom (t_s e) = {1..5} \<and> dom (rh_s e) = {1..5} \<and> dom (ok_s e) = {1..5}) out"
      by (rule l)
    show "rows 5 (Inr out) =
       Inr [(1772013600, [(Some None, Some (Some 40), Some 1),
                          (Some None, Some (Some 0), Some 0),
                          (Some None, Some None, Some 0),
                          (Some None, Some None, Some 0),
                          (Some None, Some None, Some 0)])]"
      by (rule r')
  qed
qed

subsection \<open>Ordering\<close>

text \<open>
  C7. Every output the merge returns is the list of the filled records sorted by
  timestamp: it is non-decreasing in the instant of the timestamp, and the sort is
  stable, that is, the records of any one instant stand in the output in the order they
  have in \<open>entries\<close>. The keys of \<open>entries\<close> are in the order of their first occurrence
  in the temperature feed followed by the humidity feed (readings whose timestamp does
  not parse left out). The merge returns an output whenever every timestamp that parses
  carries an offset; line 97 raises when a timestamp without an offset meets one with
  an offset.
\<close>

theorem output_order:
  "(\<forall>out. parseThingSpeakMerge L SC tf hf = Inr out \<longrightarrow>
      (\<exists>es. ingest L SC tf hf = Inr es \<and>
         sorted (map (\<lambda>e. instant L (timestamp e)) out) \<and>
         (\<forall>k. filter (\<lambda>e. instant L (timestamp e) = k) out =
              filter (\<lambda>e. instant L (timestamp e) = k) (fill_all SC es)) \<and>
         map timestamp (fill_all SC es) = map (timestamp \<circ> snd) es \<and>
         map fst es = first_seen (feed_keys L tf @ feed_keys L hf))) \<and>
   (all_aware L tf \<and> all_aware L hf \<longrightarrow> (\<exists>out. parseThingSpeakMerge L SC tf hf = Inr out))"
proof -
  have a: "\<exists>es. ingest L SC tf hf = Inr es \<and>
         sorted (map (\<lambda>e. instant L (timestamp e)) out) \<and>
         (\<forall>k. filter (\<lambda>e. instant L (timestamp e) = k) out =
              filter (\<lambda>e. instant L (timestamp e) = k) (fill_all SC es)) \<and>
         map timestamp (fill_all SC es) = map (timestamp \<circ> snd) es \<and>
         map fst es = first_seen (feed_keys L tf @ feed_keys L hf)"
    if m: "parseThingSpeakMerge L SC tf hf = Inr out" for out
  proof -
    obtain es where i: "ingest L SC tf hf = Inr es" using ingest_Inr by blast
    from m have "sort_entries L (fill_all SC es) = Inr out" by (simp add: merge_eq [OF i])
    then have o: "out = sort_key (\<lambda>e. instant L (timestamp e)) (fill_all SC es)"
      by (rule sort_entries_Inr)
    have s: "sorted (map (\<lambda>e. instant L (timestamp e)) out)"
      unfolding o by simp
    have st: "\<forall>k. filter (\<lambda>e. instant L (timestamp e) = k) out =
            filter (\<lambda>e. instant L (timestamp e) = k) (fill_all SC es)"
      unfolding o by (simp add: sort_key_stable)
    have t: "map timestamp (fill_all SC es) = map (timestamp \<circ> snd) es"
      by (simp add: fill_all_def timestamp_fill)
    have k: "map fst es = first_seen (feed_keys L tf @ feed_keys L hf)"
      using i by (rule keys_ingest)
    from i s st t k show ?thesis by blast
  qed
  have b: "all_aware L tf \<and> all_aware L hf \<longrightarrow> (\<exists>out. parseThingSpeakMerge L SC tf hf = Inr out)"
    using merge_aware by blast
  from a b show ?thesis by blast
qed

theorem output_order_witness:
  "all_aware demo_lib [ex_later, ex_csv] \<and> all_aware demo_lib [ex_hum] \<and>
   (\<exists>out es. parseThingSpeakMerge demo_lib 5 [ex_later, ex_csv] [ex_hum] = Inr out \<and>
     ingest demo_lib 5 [ex_later, ex_csv] [ex_hum] = Inr es \<and>
     map fst es = [29533567, 29533560] \<and>
     map (timestamp \<circ> snd) es = [1772014020, 1772013600] \<and>
     map timestamp out = [1772013600, 1772014020] \<and>
     sorted (map (\<lambda>e. instant demo_lib (timestamp e)) out))"
proof -
  have a1: "all_aware demo_lib [ex_later, ex_csv]" and a2: "all_aware demo_lib [ex_hum]"
    by (rule demo_aware)+
  note T = output_order [of demo_lib 5 "[ex_later, ex_csv]" "[ex_hum]"]
  from T a1 a2 obtain out where m: "parseThingSpeakMerge demo_lib 5 [ex_later, ex_csv] [ex_hum] = Inr out"
    by blast
  from T m obtain es where i: "ingest demo_lib 5 [ex_later, ex_csv] [ex_hum] = Inr es"
    and s: "sorted (map (\<lambda>e. instant demo_lib (timestamp e)) out)"
    and k: "map fst es = first_seen (feed_keys demo_lib [ex_later, ex_csv] @ feed_keys demo_lib [ex_hum])"
    by blast
  have k': "first_seen (feed_keys demo_lib [ex_later, ex_csv] @ feed_keys demo_lib [ex_hum]) = [29533567, 29533560]"
    by code_simp
  from k k' have k'': "map fst es = [29533567, 29533560]" by simp
  have "map_sum id (map timestamp) (parseThingSpeakMerge demo_lib 5 [ex_later, ex_csv] [ex_hum])
      = Inr [1772013600, 1772014020]"
    by code_simp
  then have o: "map timestamp out = [1772013600, 1772014020]"
    unfolding m by simp
  have "map_sum id (map (timestamp \<circ> snd)) (ingest demo_lib 5 [ex_later, ex_csv] [ex_hum])
      = Inr [1772014020, 1772013600]"
    by code_simp
  then have u: "map (timestamp \<circ> snd) es = [1772014020, 1772013600]"
    unfolding i by simp
  show ?thesis
  proof (intro conjI exI)
    show "all_aware demo_lib [ex_later, ex_csv]" by (rule a1)
    show "all_aware demo_lib [ex_hum]" by (rule a2)
    show "parseThingSpeakMerge demo_lib 5 [ex_later, ex_csv] [ex_hum] = Inr out" by (rule m)
    show "ingest demo_lib 5 [ex_later, ex_csv] [ex_hum] = Inr es" by (rule i)
    show "map fst es = [29533567, 29533560]" by (rule k'')
    show "map (timestamp \<circ> snd) es = [1772014020, 1772013600]" by (rule u)
    show "map timestamp out = [1772013600, 1772014020]" by (rule o)
    show "sorted (map (\<lambda>e. instant demo_lib (timestamp e)) out)" by (rule s)
  qed
qed

subsection \<open>Short CSV fields\<close>



subsection \<open>The value parser\<close>

text \<open>
  C9. \<open>num_parse\<close> is a total function into "a float or None": it returns None for an
  absent value and for the tokens \<open>""\<close>, \<open>"null"\<close>, \<open>"None"\<close>; on any other string it
  returns what \<open>float\<close> returns, and None (which is not the float zero) when \<open>float\<close>
  raises. No error of \<open>float\<close> leaves \<open>num_parse\<close>.
\<close>

theorem num_parse_contract:
  "num_parse L None = None \<and>
   num_parse L (Some '''') = None \<and>
   num_parse L (Some ''null'') = None \<and>
   num_parse L (Some ''None'') = None \<and>
   (s \<noteq> '''' \<and> s \<noteq> ''null'' \<and> s \<noteq> ''None'' \<longrightarrow>
      (\<forall>n. py_float L s = Inr n \<longrightarrow> num_parse L (Some s) = Some n) \<and>
      (\<forall>err. py_float L s = Inl err \<longrightarrow> num_parse L (Some s) = None \<and> num_parse L (Some s) \<noteq> Some 0))"
  by (simp add: num_parse_def)

theorem num_parse_contract_witness:
  "num_parse demo_lib (Some ''21.5'') = Some 21.5 \<and>
   num_parse demo_lib (Some ''12abc'') = None \<and>
   num_parse demo_lib (Some ''12abc'') \<noteq> Some 0"
proof -
  have a: "py_float demo_lib ''21.5'' = Inr 21.5"
    by (simp add: demo_lib_def dec_float_def digit_of_def)
  have b: "py_float demo_lib ''12abc'' = Inl ValueError"
    by (simp add: demo_lib_def dec_float_def digit_of_def)
  show ?thesis
    using num_parse_contract [of demo_lib "''21.5''"] num_parse_contract [of demo_lib "''12abc''"] a b
    by simp
qed

subsection \<open>Malformed timestamps\<close>

text \<open>
  C10. A reading whose \<open>created_at\<close> does not parse leaves \<open>entries\<close> as it is, in
  either feed; the merge of two feeds is the merge of the feeds without such readings,
  so these readings change neither the output nor whether there is one; the merge
  returns a sequence whenever every timestamp that does parse carries an offset, however
  many readings do not parse; and two empty feeds, or a snapshot with neither feed, give
  the empty sequence.
\<close>

theorem malformed_timestamp_skipped:
  "(parse_created_at L f = None \<longrightarrow>
      temp_reading L SC f es = Inr es \<and> hum_reading L SC f es = Inr es) \<and>
   parseThingSpeakMerge L SC tf hf =
     parseThingSpeakMerge L SC (filter (\<lambda>f. parse_created_at L f \<noteq> None) tf)
                               (filter (\<lambda>f. parse_created_at L f \<noteq> None) hf) \<and>
   (all_aware L tf \<and> all_aware L hf \<longrightarrow> (\<exists>out. parseThingSpeakMerge L SC tf hf = Inr out)) \<and>
   parseThingSpeakMerge L SC [] [] = Inr [] \<and>
   merge_snapshot L \<lparr>tempFeeds = None, humFeeds = None\<rparr> = Inr []"
proof -
  have a: "parse_created_at L f = None \<longrightarrow>
      temp_reading L SC f es = Inr es \<and> hum_reading L SC f es = Inr es"
    by (simp add: temp_reading_skip hum_reading_skip)
  have b: "parseThingSpeakMerge L SC tf hf =
     parseThingSpeakMerge L SC (filter (\<lambda>f. parse_created_at L f \<noteq> None) tf)
                               (filter (\<lambda>f. parse_created_at L f \<noteq> None) hf)"
    by (simp only: parseThingSpeakMerge_def ingest_filter)
  have c: "all_aware L tf \<and> all_aware L hf \<longrightarrow> (\<exists>out. parseThingSpeakMerge L SC tf hf = Inr out)"
    using merge_aware by blast
  have d: "parseThingSpeakMerge L SC [] [] = Inr []" for SC
    by (simp add: parseThingSpeakMerge_def ingest_def fill_all_def sort_entries_def)
  have e: "merge_snapshot L \<lparr>tempFeeds = None, humFeeds = None\<rparr> = Inr []"
    by (simp add: merge_snapshot_def get_feed_def d)
  from a b c d e show ?thesis by blast
qed

theorem malformed_timestamp_skipped_witness:
  "parse_created_at demo_lib ex_bad = None \<and>
   all_aware demo_lib [ex_bad, ex_csv] \<and> all_aware demo_lib [ex_bad, ex_hum_gap, ex_bad] \<and>
   temp_reading demo_lib 5 ex_bad ex_flag0 = Inr ex_flag0 \<and>
   hum_reading demo_lib 5 ex_bad ex_flag0 = Inr ex_flag0 \<and>
   parseThingSpeakMerge demo_lib 5 [ex_bad, ex_csv] [ex_bad, ex_hum_gap, ex_bad] =
     parseThingSpeakMerge demo_lib 5 [ex_csv] [ex_hum_gap] \<and>
   (\<exists>out. parseThingSpeakMerge demo_lib 5 [ex_bad, ex_csv] [ex_bad, ex_hum_gap, ex_bad] = Inr out) \<and>
   rows 5 (parseThingSpeakMerge demo_lib 5 [ex_bad, ex_csv] [ex_bad, ex_hum_gap, ex_bad]) =
     Inr [(1772013600, [(Some (Some 21.5), Some None, Some 1),
                (Some (Some 22), Some (Some 55), Some 1),
                (Some None, Some None, Some 0),
                (Some None, Some None, Some 0),
                (Some None, Some None, Some 0)])]"
proof -
  have p: "parse_created_at demo_lib ex_csv = Some 1772013600"
    unfolding ex_csv_def by (rule demo_parse)
  have q: "parse_created_at demo_lib ex_hum_gap = Some 1772013600"
    unfolding ex_hum_gap_def by (rule demo_parse)
  have a1: "all_aware demo_lib [ex_bad, ex_csv]"
    and a2: "all_aware demo_lib [ex_bad, ex_hum_gap, ex_bad]"
    by (rule demo_aware)+
  have f1: "filter (\<lambda>f. parse_created_at demo_lib f \<noteq> None) [ex_bad, ex_csv] = [ex_csv]"
    by (simp add: demo_bad p)
  have f2: "filter (\<lambda>f. parse_created_at demo_lib f \<noteq> None) [ex_bad, ex_hum_gap, ex_bad] = [ex_hum_gap]"
    by (simp add: demo_bad q)
  have r: "rows 5 (parseThingSpeakMerge demo_lib 5 [ex_csv] [ex_hum_gap]) =
     Inr [(1772013600, [(Some (Some 21.5), Some None, Some 1),
                (Some (Some 22), Some (Some 55), Some 1),
                (Some None, Some None, Some 0),
                (Some None, Some None, Some 0),
                (Some None, Some None, Some 0)])]"
    by code_simp
  note T = malformed_timestamp_skipped [of demo_lib ex_bad 5 ex_flag0 "[ex_bad, ex_csv]"
      "[ex_bad, ex_hum_gap, ex_bad]", unfolded f1 f2]
  from T demo_bad have s: "temp_reading demo_lib 5 ex_bad ex_flag0 = Inr ex_flag0"
    "hum_reading demo_lib 5 ex_bad ex_flag0 = Inr ex_flag0"
    by blast+
  from T have e: "parseThingSpeakMerge demo_lib 5 [ex_bad, ex_csv] [ex_bad, ex_hum_gap, ex_bad] =
     parseThingSpeakMerge demo_lib 5 [ex_csv] [ex_hum_gap]"
    by blast
  from T a1 a2 have x: "\<exists>out. parseThingSpeakMerge demo_lib 5 [ex_bad, ex_csv] [ex_bad, ex_hum_gap, ex_bad] = Inr out"
    by blast
  from r have r': "rows 5 (parseThingSpeakMerge demo_lib 5 [ex_bad, ex_csv] [ex_bad, ex_hum_gap, ex_bad]) =
     Inr [(1772013600, [(Some (Some 21.5), Some None, Some 1),
                (Some (Some 22), Some (Some 55), Some 1),
                (Some None, Some None, Some 0),
                (Some None, Some None, Some 0),
                (Some None, Some None, Some 0)])]"
    unfolding e .
  from demo_bad a1 a2 s e x r' show ?thesis by - (intro conjI; assumption)
qed

end
